theory Spec2Isabelle
  imports Complex_Main "HOL-Library.Word" "HOL-Library.AList"
begin

unbundle bit_operations_syntax

section \<open>JavaScript numbers restricted to what the audio library uses\<close>

text \<open>
  The library is TypeScript. Its integer-valued numbers are modelled as \<open>int\<close>; the
  bitwise operators of the language first convert their operands to 32-bit integers
  (ToInt32, or ToUint32 for the left operand of \<open>>>>\<close>) and mask the shift count with 31.
  The conversions are written out, so that every wrap-around of the source is a
  wrap-around of the model. A \<open>Uint8Array\<close> is a list of 8-bit words.
\<close>

type_synonym byte = "8 word"

definition toInt32 :: "int \<Rightarrow> int" where
  "toInt32 x = signed_take_bit 31 x"

definition toUint32 :: "int \<Rightarrow> int" where
  "toUint32 x = take_bit 32 x"

definition js_and :: "int \<Rightarrow> int \<Rightarrow> int" where
  "js_and a b = toInt32 a AND toInt32 b"

definition js_or :: "int \<Rightarrow> int \<Rightarrow> int" where
  "js_or a b = toInt32 a OR toInt32 b"

definition js_xor :: "int \<Rightarrow> int \<Rightarrow> int" where
  "js_xor a b = toInt32 a XOR toInt32 b"

definition js_not :: "int \<Rightarrow> int" where
  "js_not a = NOT (toInt32 a)"

text \<open>\<open>a << n\<close>, \<open>a >> n\<close> (sign-propagating) and \<open>a >>> n\<close> (zero-filling).\<close>

definition js_shl :: "int \<Rightarrow> nat \<Rightarrow> int" where
  "js_shl a n = toInt32 (push_bit (n mod 32) (toInt32 a))"

definition js_sar :: "int \<Rightarrow> nat \<Rightarrow> int" where
  "js_sar a n = drop_bit (n mod 32) (toInt32 a)"

definition js_shr :: "int \<Rightarrow> nat \<Rightarrow> int" where
  "js_shr a n = drop_bit (n mod 32) (toUint32 a)"

section \<open>CRC kernel (bitstream.ts)\<close>

text \<open>
  \<^verbatim>\<open>crc32(data, poly = 0xEDB88320, init = 0xFFFFFFFF)\<close>: for every byte,
  \<^verbatim>\<open>crc ^= byte\<close> and then eight rounds of
  \<^verbatim>\<open>crc = (crc & 1) ? (crc >>> 1) ^ poly : crc >>> 1\<close>; the result is
  \<^verbatim>\<open>(~crc) >>> 0\<close>.
\<close>

fun crc32_rounds :: "nat \<Rightarrow> int \<Rightarrow> int \<Rightarrow> int" where
  "crc32_rounds 0 poly crc = crc"
| "crc32_rounds (Suc i) poly crc =
     crc32_rounds i poly
       (if js_and crc 1 \<noteq> 0 then js_xor (js_shr crc 1) poly else js_shr crc 1)"

fun crc32_loop :: "byte list \<Rightarrow> int \<Rightarrow> int \<Rightarrow> int" where
  "crc32_loop [] poly crc = crc"
| "crc32_loop (b # bs) poly crc =
     crc32_loop bs poly (crc32_rounds 8 poly (js_xor crc (uint b)))"

definition crc32 :: "byte list \<Rightarrow> int \<Rightarrow> int \<Rightarrow> int" where
  "crc32 data poly init = js_shr (js_not (crc32_loop data poly init)) 0"

text \<open>The call \<^verbatim>\<open>crc32(data)\<close>, with both default arguments.\<close>

definition crc32_default :: "byte list \<Rightarrow> int" where
  "crc32_default data = crc32 data 0xEDB88320 0xFFFFFFFF"

definition ascii_bytes :: "string \<Rightarrow> byte list" where
  "ascii_bytes s = map of_char s"

section \<open>Typed arrays and errors\<close>

text \<open>
  A thrown \<^verbatim>\<open>new Error(msg)\<close> is the value \<open>Error msg\<close>, the \<^verbatim>\<open>RangeError\<close> of an
  out-of-bounds \<^verbatim>\<open>DataView\<close> access is \<open>RangeError\<close>, the \<^verbatim>\<open>TypeError\<close> of \<^verbatim>\<open>BigInt(null)\<close> is
  \<open>TypeError\<close>, and \<open>TrackNotFound n\<close> stands for the error whose message is
  \<^verbatim>\<open>Track ${n} not found\<close>.
  Reading a typed array outside its bounds gives \<^verbatim>\<open>undefined\<close>, here \<open>None\<close>, and a
  bitwise operator converts \<^verbatim>\<open>undefined\<close> to 0.
\<close>

datatype js_error = Error string | RangeError | TypeError | TrackNotFound int

definition index :: "byte list \<Rightarrow> nat \<Rightarrow> int option" where
  "index data i = (if i < length data then Some (uint (data ! i)) else None)"

fun bitop :: "int option \<Rightarrow> int" where
  "bitop None = 0"
| "bitop (Some v) = v"

text \<open>\<^verbatim>\<open>data.subarray(b, e)\<close> for non-negative bounds: both are clamped to the length.\<close>

definition subarray :: "byte list \<Rightarrow> nat \<Rightarrow> nat \<Rightarrow> byte list" where
  "subarray data b e =
     take (min e (length data) - min b (length data)) (drop (min b (length data)) data)"

definition getUint16BE :: "byte list \<Rightarrow> nat \<Rightarrow> js_error + int" where
  "getUint16BE data i =
     (if i + 2 \<le> length data then Inr (uint (data ! i) * 256 + uint (data ! (i + 1)))
      else Inl RangeError)"

section \<open>BitReader and BitWriter (bitstream.ts)\<close>

text \<open>
  The bit cursor of \<^verbatim>\<open>BitReader\<close> is \<open>br_bytePos\<close>, \<open>br_bitPos\<close>; bits are taken from the
  most significant end of each byte. Counts and Rice parameters are natural numbers,
  values are integers.
\<close>

record BitReader =
  br_data :: "byte list"
  br_bytePos :: nat
  br_bitPos :: nat

definition new_BitReader :: "byte list \<Rightarrow> BitReader" where
  "new_BitReader data = BitReader.make data 0 0"

definition readBit :: "BitReader \<Rightarrow> js_error + (int \<times> BitReader)" where
  "readBit r =
     (if br_bytePos r \<ge> length (br_data r) then Inl (Error ''End of buffer'')
      else
        let b = js_and (js_sar (uint (br_data r ! br_bytePos r)) (7 - br_bitPos r)) 1;
            r1 = r\<lparr>br_bitPos := br_bitPos r + 1\<rparr>;
            r2 = (if br_bitPos r1 = 8 then r1\<lparr>br_bitPos := 0, br_bytePos := br_bytePos r1 + 1\<rparr>
                  else r1)
        in Inr (b, r2))"

fun readBits_loop :: "nat \<Rightarrow> int \<Rightarrow> BitReader \<Rightarrow> js_error + (int \<times> BitReader)" where
  "readBits_loop 0 result r = Inr (result, r)"
| "readBits_loop (Suc i) result r =
     (case readBit r of
        Inl e \<Rightarrow> Inl e
      | Inr (b, r') \<Rightarrow> readBits_loop i (js_or (js_shl result 1) b) r')"

definition readBits :: "nat \<Rightarrow> BitReader \<Rightarrow> js_error + (int \<times> BitReader)" where
  "readBits count r =
     (if count > 32 then Inl (Error ''Cannot read more than 32 bits at once'')
      else readBits_loop count 0 r)"

text \<open>
  The loop shared by \<^verbatim>\<open>readUnary\<close> and \<^verbatim>\<open>readUExpGolomb\<close>:
  \<^verbatim>\<open>while (this.readBit() === 0) { count++; if (count > 32) throw new Error(msg) }\<close>.
  It ends at a 1 bit, at the end of the buffer, or at the 33rd zero.
\<close>

function count_zeros :: "string \<Rightarrow> nat \<Rightarrow> BitReader \<Rightarrow> js_error + (nat \<times> BitReader)" where
  "count_zeros msg count r =
     (case readBit r of
        Inl e \<Rightarrow> Inl e
      | Inr (b, r') \<Rightarrow>
          if b = 0 then
            (if count + 1 > 32 then Inl (Error msg) else count_zeros msg (count + 1) r')
          else Inr (count, r'))"
  by pat_completeness auto
termination
  by (relation "measure (\<lambda>(msg, count, r). 33 - count)") auto

declare count_zeros.simps [simp del]

definition readUnary :: "BitReader \<Rightarrow> js_error + (int \<times> BitReader)" where
  "readUnary r =
     (case count_zeros ''Invalid unary code'' 0 r of
        Inl e \<Rightarrow> Inl e
      | Inr (count, r') \<Rightarrow> Inr (int count, r'))"

definition readUExpGolomb :: "BitReader \<Rightarrow> js_error + (int \<times> BitReader)" where
  "readUExpGolomb r =
     (case count_zeros ''Invalid Exp-Golomb code'' 0 r of
        Inl e \<Rightarrow> Inl e
      | Inr (leadingZeros, r') \<Rightarrow>
          if leadingZeros = 0 then Inr (0, r')
          else
            (case readBits leadingZeros r' of
               Inl e \<Rightarrow> Inl e
             | Inr (suffix, r'') \<Rightarrow> Inr (js_shl 1 leadingZeros - 1 + suffix, r'')))"

definition readRice :: "nat \<Rightarrow> BitReader \<Rightarrow> js_error + (int \<times> BitReader)" where
  "readRice param r =
     (case readUnary r of
        Inl e \<Rightarrow> Inl e
      | Inr (quot, r') \<Rightarrow>
          (case readBits param r' of
             Inl e \<Rightarrow> Inl e
           | Inr (remn, r'') \<Rightarrow>
               let v = js_or (js_shl quot param) remn
               in Inr (js_xor (js_sar v 1) (- js_and v 1), r'')))"

record BitWriter =
  bw_buffers :: "byte list list"
  bw_currentByte :: int
  bw_bitPos :: nat
  bw_totalBits :: nat

definition new_BitWriter :: BitWriter where
  "new_BitWriter = BitWriter.make [] 0 0 0"

definition writeBit :: "int \<Rightarrow> BitWriter \<Rightarrow> BitWriter" where
  "writeBit b w =
     (let w1 = w\<lparr>bw_currentByte := js_or (js_shl (bw_currentByte w) 1) (js_and b 1),
                 bw_bitPos := bw_bitPos w + 1,
                 bw_totalBits := bw_totalBits w + 1\<rparr>
      in if bw_bitPos w1 = 8
         then w1\<lparr>bw_buffers := bw_buffers w1 @ [[of_int (bw_currentByte w1)]],
                  bw_currentByte := 0, bw_bitPos := 0\<rparr>
         else w1)"

text \<open>\<^verbatim>\<open>for (let i = count - 1; i >= 0; i--) this.writeBit((value >> i) & 1)\<close>\<close>

fun writeBits_loop :: "int \<Rightarrow> nat \<Rightarrow> BitWriter \<Rightarrow> BitWriter" where
  "writeBits_loop v 0 w = w"
| "writeBits_loop v (Suc i) w = writeBits_loop v i (writeBit (js_and (js_sar v i) 1) w)"

definition writeBits :: "int \<Rightarrow> nat \<Rightarrow> BitWriter \<Rightarrow> js_error + BitWriter" where
  "writeBits v count w =
     (if count > 32 then Inl (Error ''Cannot write more than 32 bits at once'')
      else Inr (writeBits_loop v count w))"

text \<open>\<^verbatim>\<open>for (let i = 0; i < n; i++) this.writeBit(0)\<close>\<close>

fun write_zeros :: "nat \<Rightarrow> BitWriter \<Rightarrow> BitWriter" where
  "write_zeros 0 w = w"
| "write_zeros (Suc i) w = write_zeros i (writeBit 0 w)"

definition writeUnary :: "int \<Rightarrow> BitWriter \<Rightarrow> BitWriter" where
  "writeUnary v w = writeBit 1 (write_zeros (nat v) w)"

text \<open>
  \<^verbatim>\<open>Math.floor(Math.log2(code))\<close> for an integer \<open>code \<ge> 1\<close>, computed exactly. (The
  double-precision logarithm has the same floor for every \<open>code\<close> below \<open>2 ^ 32\<close>, the
  largest that \<^verbatim>\<open>writeBits\<close> accepts.)
\<close>

function floor_log2 :: "int \<Rightarrow> nat" where
  "floor_log2 n = (if n < 2 then 0 else Suc (floor_log2 (n div 2)))"
  by pat_completeness auto
termination
  by (relation "measure nat") auto

declare floor_log2.simps [simp del]

text \<open>
  For a negative \<open>v\<close> the logarithm is NaN (or minus infinity for \<open>v = -1\<close>), both loops
  run zero times and nothing is written.
\<close>

definition writeUExpGolomb :: "int \<Rightarrow> BitWriter \<Rightarrow> js_error + BitWriter" where
  "writeUExpGolomb v w =
     (if v = 0 then Inr (writeBit 1 w)
      else if v < 0 then Inr w
      else
        let code = v + 1;
            bits = floor_log2 code + 1;
            leadingZeros = bits - 1
        in writeBits code bits (write_zeros leadingZeros w))"

definition writeRice :: "int \<Rightarrow> nat \<Rightarrow> BitWriter \<Rightarrow> js_error + BitWriter" where
  "writeRice v param w =
     (let unsigned = (if v \<ge> 0 then v * 2 else - v * 2 - 1);
          quot = js_sar unsigned param;
          remn = js_and unsigned (js_shl 1 param - 1)
      in writeBits remn param (writeUnary quot w))"

text \<open>
  \<^verbatim>\<open>getBuffer\<close> pads the last byte with zero bits, returns the bytes and puts the
  pending bits back (the bit counter keeps the padding).
\<close>

definition bw_getBuffer :: "BitWriter \<Rightarrow> byte list \<times> BitWriter" where
  "bw_getBuffer w =
     (let flushBits = (if bw_bitPos w > 0 then 8 - bw_bitPos w else 0);
          savedBitPos = bw_bitPos w;
          w1 = write_zeros flushBits w;
          result = concat (bw_buffers w1)
      in if flushBits > 0
         then (result, w1\<lparr>bw_buffers := butlast (bw_buffers w1),
                          bw_bitPos := savedBitPos,
                          bw_currentByte := js_sar (uint (last result)) flushBits\<rparr>)
         else (result, w1))"

text \<open>Encoding into a fresh writer and decoding the bytes of \<^verbatim>\<open>getBuffer()\<close>.\<close>

definition golomb_roundtrip :: "int \<Rightarrow> js_error + int" where
  "golomb_roundtrip u =
     (case writeUExpGolomb u new_BitWriter of
        Inl e \<Rightarrow> Inl e
      | Inr w \<Rightarrow> map_sum id fst (readUExpGolomb (new_BitReader (fst (bw_getBuffer w)))))"

definition rice_roundtrip :: "int \<Rightarrow> nat \<Rightarrow> js_error + int" where
  "rice_roundtrip v k =
     (case writeRice v k new_BitWriter of
        Inl e \<Rightarrow> Inl e
      | Inr w \<Rightarrow> map_sum id fst (readRice k (new_BitReader (fst (bw_getBuffer w)))))"

section \<open>FLAC: parseStreamInfo\<close>

text \<open>
  The fields of \<^verbatim>\<open>FlacStreamInfo\<close> carry the prefix \<open>flac_\<close>. The expression for
  \<^verbatim>\<open>bitsPerSample\<close> is the source's,
  \<^verbatim>\<open>((data[12] & 0x01) << 4) | (data[13] >> 4) + 1\<close>, in which \<^verbatim>\<open>+\<close> binds tighter
  than \<^verbatim>\<open>|\<close>.
\<close>

record FlacStreamInfo =
  flac_minBlockSize :: int
  flac_maxBlockSize :: int
  flac_minFrameSize :: int
  flac_maxFrameSize :: int
  flac_sampleRate :: int
  flac_channels :: int
  flac_bitsPerSample :: int
  flac_totalSamples :: int
  flac_md5 :: "byte list"

definition parseStreamInfo :: "byte list \<Rightarrow> js_error + FlacStreamInfo" where
  "parseStreamInfo data =
    (case getUint16BE data 0 of Inl e \<Rightarrow> Inl e | Inr minBlockSize \<Rightarrow>
    (case getUint16BE data 2 of Inl e \<Rightarrow> Inl e | Inr maxBlockSize \<Rightarrow>
     let d = (\<lambda>i. bitop (index data i));
         minFrameSize = js_or (js_or (js_shl (d 4) 16) (js_shl (d 5) 8)) (d 6);
         maxFrameSize = js_or (js_or (js_shl (d 7) 16) (js_shl (d 8) 8)) (d 9);
         sampleRate = js_or (js_or (js_shl (d 10) 12) (js_shl (d 11) 4)) (js_sar (d 12) 4);
         channels = js_and (js_sar (d 12) 1) 0x07 + 1;
         bitsPerSample = js_or (js_shl (js_and (d 12) 0x01) 4) (js_sar (d 13) 4 + 1);
         totalSamplesHigh = js_and (d 13) 0x0F;
         totalSamplesLow =
           js_or (js_or (js_or (js_shl (d 14) 24) (js_shl (d 15) 16)) (js_shl (d 16) 8)) (d 17);
         totalSamples = push_bit 32 totalSamplesHigh OR js_shr totalSamplesLow 0;
         md5 = subarray data 18 34
     in Inr (FlacStreamInfo.make minBlockSize maxBlockSize minFrameSize maxFrameSize
               sampleRate channels bitsPerSample totalSamples md5)))"

text \<open>
  The specification's reading of the layout: the 5-bit field is the lowest bit of byte 12
  followed by the upper four bits of byte 13.
\<close>

definition streaminfo_bps_field :: "byte list \<Rightarrow> int" where
  "streaminfo_bps_field data = (uint (data ! 12) mod 2) * 16 + uint (data ! 13) div 16"

section \<open>MP3: parseFrameHeader\<close>

datatype MpegVersion = MPEG1 | MPEG2 | MPEG2_5

datatype Layer = Layer1 | Layer2 | Layer3

datatype ChannelMode = Stereo | JointStereo | DualChannel | Mono

fun version_name :: "MpegVersion \<Rightarrow> string" where
  "version_name MPEG1 = ''MPEG1''"
| "version_name MPEG2 = ''MPEG2''"
| "version_name MPEG2_5 = ''MPEG2.5''"

fun layer_name :: "Layer \<Rightarrow> string" where
  "layer_name Layer1 = ''Layer1''"
| "layer_name Layer2 = ''Layer2''"
| "layer_name Layer3 = ''Layer3''"

definition MPEG_VERSIONS :: "MpegVersion option list" where
  "MPEG_VERSIONS = [Some MPEG2_5, None, Some MPEG2, Some MPEG1]"

definition LAYERS :: "Layer option list" where
  "LAYERS = [None, Some Layer3, Some Layer2, Some Layer1]"

definition BITRATES :: "(string \<times> int option list) list" where
  "BITRATES =
    [(''MPEG1-Layer1'', [None, Some 32, Some 64, Some 96, Some 128, Some 160, Some 192, Some 224,
                        Some 256, Some 288, Some 320, Some 352, Some 384, Some 416, Some 448, None]),
     (''MPEG1-Layer2'', [None, Some 32, Some 48, Some 56, Some 64, Some 80, Some 96, Some 112,
                        Some 128, Some 160, Some 192, Some 224, Some 256, Some 320, Some 384, None]),
     (''MPEG1-Layer3'', [None, Some 32, Some 40, Some 48, Some 56, Some 64, Some 80, Some 96,
                        Some 112, Some 128, Some 160, Some 192, Some 224, Some 256, Some 320, None]),
     (''MPEG2-Layer1'', [None, Some 32, Some 48, Some 56, Some 64, Some 80, Some 96, Some 112,
                        Some 128, Some 144, Some 160, Some 176, Some 192, Some 224, Some 256, None]),
     (''MPEG2-Layer2'', [None, Some 8, Some 16, Some 24, Some 32, Some 40, Some 48, Some 56,
                        Some 64, Some 80, Some 96, Some 112, Some 128, Some 144, Some 160, None]),
     (''MPEG2-Layer3'', [None, Some 8, Some 16, Some 24, Some 32, Some 40, Some 48, Some 56,
                        Some 64, Some 80, Some 96, Some 112, Some 128, Some 144, Some 160, None])]"

fun SAMPLE_RATES :: "MpegVersion \<Rightarrow> int option list" where
  "SAMPLE_RATES MPEG1 = [Some 44100, Some 48000, Some 32000, None]"
| "SAMPLE_RATES MPEG2 = [Some 22050, Some 24000, Some 16000, None]"
| "SAMPLE_RATES MPEG2_5 = [Some 11025, Some 12000, Some 8000, None]"

definition SAMPLES_PER_FRAME :: "(string \<times> int) list" where
  "SAMPLES_PER_FRAME =
    [(''MPEG1-Layer1'', 384), (''MPEG1-Layer2'', 1152), (''MPEG1-Layer3'', 1152),
     (''MPEG2-Layer1'', 384), (''MPEG2-Layer2'', 1152), (''MPEG2-Layer3'', 576),
     (''MPEG2.5-Layer1'', 384), (''MPEG2.5-Layer2'', 1152), (''MPEG2.5-Layer3'', 576)]"

definition CHANNEL_MODES :: "ChannelMode list" where
  "CHANNEL_MODES = [Stereo, JointStereo, DualChannel, Mono]"

text \<open>A table lookup by a small non-negative integer; outside the table it is \<^verbatim>\<open>undefined\<close>.\<close>

definition lookup :: "'a list \<Rightarrow> int \<Rightarrow> 'a option" where
  "lookup xs i = (if 0 \<le> i \<and> nat i < length xs then Some (xs ! nat i) else None)"

text \<open>An entry that is \<^verbatim>\<open>null\<close> and an entry that is missing are both falsy.\<close>

fun entry :: "'a option option \<Rightarrow> 'a option" where
  "entry (Some (Some v)) = Some v"
| "entry _ = None"

record Mp3FrameHeader =
  mp3_version :: MpegVersion
  mp3_layer :: Layer
  mp3_hasCrc :: bool
  mp3_bitrate :: int
  mp3_sampleRate :: int
  mp3_padding :: bool
  mp3_channelMode :: ChannelMode
  mp3_channels :: int
  mp3_samplesPerFrame :: int
  mp3_frameSize :: int

text \<open>
  The frame size is computed by the source in double-precision arithmetic:
  \<^verbatim>\<open>Math.floor((12 * bitrate * 1000 / sampleRate + (paddingBit ? 1 : 0)) * 4)\<close> for Layer 1
  and \<^verbatim>\<open>Math.floor(slotSize * bitrate * 1000 / sampleRate + (paddingBit ? 1 : 0))\<close>
  otherwise. The model computes the same expressions over the rationals. Numerators and
  denominators come from the two tables above, so a quotient that is not an integer is
  at least 1/48000 away from the next integer, far more than the rounding error of a
  double of this size: the floor of the double is the floor of the rational.
\<close>

definition frameSize_of :: "Layer \<Rightarrow> MpegVersion \<Rightarrow> int \<Rightarrow> int \<Rightarrow> int \<Rightarrow> int" where
  "frameSize_of layer version bitrate sampleRate paddingBit =
     (if layer = Layer1 then
        \<lfloor>((12 * of_int bitrate * 1000 / of_int sampleRate :: rat)
            + (if paddingBit \<noteq> 0 then 1 else 0)) * 4\<rfloor>
      else
        let slotSize = (if layer = Layer3 \<and> version \<noteq> MPEG1 then 72 else 144 :: rat)
        in \<lfloor>slotSize * of_int bitrate * 1000 / of_int sampleRate
              + (if paddingBit \<noteq> 0 then 1 else 0)\<rfloor>)"

definition parseFrameHeader :: "byte list \<Rightarrow> nat \<Rightarrow> Mp3FrameHeader option" where
  "parseFrameHeader data offset =
    (if offset + 4 > length data then None
     else
       let h0 = uint (data ! offset); h1 = uint (data ! (offset + 1));
           h2 = uint (data ! (offset + 2)); h3 = uint (data ! (offset + 3))
       in if h0 \<noteq> 0xFF \<or> js_and h1 0xE0 \<noteq> 0xE0 then None
          else
            let versionBits = js_and (js_sar h1 3) 0x03;
                layerBits = js_and (js_sar h1 1) 0x03;
                protectionBit = js_and h1 0x01;
                bitrateBits = js_and (js_sar h2 4) 0x0F;
                sampleRateBits = js_and (js_sar h2 2) 0x03;
                paddingBit = js_and (js_sar h2 1) 0x01;
                channelModeBits = js_and (js_sar h3 6) 0x03
            in case (lookup MPEG_VERSIONS versionBits, lookup LAYERS layerBits) of
                 (Some (Some version), Some (Some layer)) \<Rightarrow>
                   let bitrateKey =
                         (if version = MPEG2_5 then ''MPEG2-'' @ layer_name layer
                          else version_name version @ ''-'' @ layer_name layer);
                       bitrate = (case map_of BITRATES bitrateKey of
                                    None \<Rightarrow> None
                                  | Some row \<Rightarrow> entry (lookup row bitrateBits));
                       sampleRate = entry (lookup (SAMPLE_RATES version) sampleRateBits)
                   in (case (bitrate, sampleRate) of
                         (Some br, Some sr) \<Rightarrow>
                           if br = 0 \<or> sr = 0 then None
                           else
                             let samplesPerFrame =
                                   (case map_of SAMPLES_PER_FRAME
                                           (version_name version @ ''-'' @ layer_name layer) of
                                      Some n \<Rightarrow> n | None \<Rightarrow> 1152);
                                 channelMode = CHANNEL_MODES ! nat channelModeBits;
                                 channels = (if channelMode = Mono then 1 else 2);
                                 frameSize = frameSize_of layer version br sr paddingBit
                             in Some (Mp3FrameHeader.make version layer (protectionBit = 0)
                                        (br * 1000) sr (paddingBit = 1) channelMode channels
                                        samplesPerFrame frameSize)
                       | _ \<Rightarrow> None)
               | _ \<Rightarrow> None)"

text \<open>
  The specification's formula for the frame size, in its words: for Layer 1 the floor is
  taken of the number of 4-byte slots, and the product with 4 comes after it.
\<close>

definition spec_frame_size :: "Layer \<Rightarrow> MpegVersion \<Rightarrow> int \<Rightarrow> int \<Rightarrow> int \<Rightarrow> int" where
  "spec_frame_size layer version br sr padding =
     (if layer = Layer1 then \<lfloor>(12 * of_int br * 1000 / of_int sr + of_int padding :: rat)\<rfloor> * 4
      else \<lfloor>((if layer = Layer3 \<and> version \<noteq> MPEG1 then 72 else 144) * of_int br * 1000 / of_int sr
              + of_int padding :: rat)\<rfloor>)"

section \<open>Writer (buffering part) and the Muxer base class\<close>

text \<open>
  \<^verbatim>\<open>Writer.writeBytes\<close> appends a copy of its argument to \<^verbatim>\<open>buffers\<close>, or hands it to the
  stream writer when the target is a stream whose writer has been opened, and advances
  \<^verbatim>\<open>_position\<close>. \<^verbatim>\<open>close\<close> returns the concatenation of the buffers (for a file target it
  also stores it in the file, for an opened stream it returns an empty array). What has
  left the process is recorded in \<open>wr_streamed\<close> and \<open>wr_file\<close>.
\<close>

datatype Target = BufferTarget | FileTarget string | StreamTarget

record Writer =
  wr_buffers :: "byte list list"
  wr_target :: Target
  wr_position :: int
  wr_streamWriter :: bool
  wr_streamed :: "byte list list"
  wr_file :: "byte list option"

definition new_Writer :: "Target \<Rightarrow> Writer" where
  "new_Writer target = Writer.make [] target 0 False [] None"

definition writeBytes :: "byte list \<Rightarrow> Writer \<Rightarrow> Writer" where
  "writeBytes data w =
     (let w' = (if wr_target w = StreamTarget \<and> wr_streamWriter w
                then w\<lparr>wr_streamed := wr_streamed w @ [data]\<rparr>
                else w\<lparr>wr_buffers := wr_buffers w @ [data]\<rparr>)
      in w'\<lparr>wr_position := wr_position w' + int (length data)\<rparr>)"

definition getBuffer :: "Writer \<Rightarrow> byte list" where
  "getBuffer w = concat (wr_buffers w)"

definition close :: "Writer \<Rightarrow> byte list \<times> Writer" where
  "close w =
     (case wr_target w of
        FileTarget path \<Rightarrow> (getBuffer w, w\<lparr>wr_file := Some (getBuffer w)\<rparr>)
      | StreamTarget \<Rightarrow> (if wr_streamWriter w then ([], w) else (getBuffer w, w))
      | BufferTarget \<Rightarrow> (getBuffer w, w))"

text \<open>
  Tracks and packets. Of \<^verbatim>\<open>AudioTrackConfig\<close> and \<^verbatim>\<open>EncodedPacket\<close> the fields that a
  muxer of this repository reads are kept.
\<close>

record AudioTrackConfig =
  cfg_codec :: string
  cfg_sampleRate :: int
  cfg_channels :: int
  cfg_bitrate :: "int option"

record OutputAudioTrack =
  trk_id :: int
  trk_config :: AudioTrackConfig

record EncodedPacket =
  pkt_data :: "byte list"
  pkt_timestamp :: rat
  pkt_isKeyframe :: bool
  pkt_trackId :: int

text \<open>
  The abstract class \<^verbatim>\<open>Muxer\<close>: its own fields, and the state \<open>mux_format\<close> that a
  subclass adds. The abstract and overridable methods of a subclass are the fields of a
  \<open>MuxerClass\<close>. A method returns the error it threw, if any, with the state it left
  behind. Calls are taken one after the other, each awaited before the next is made, so
  \<^verbatim>\<open>mutex.withLock\<close> acquires the free lock, runs its argument and releases the lock,
  whether or not the argument threw.
\<close>

record 'f Muxer =
  mux_writer :: Writer
  mux_tracks :: "OutputAudioTrack list"
  mux_nextTrackId :: int
  mux_headerWritten :: bool
  mux_finalized :: bool
  mux_format :: 'f

record 'f MuxerClass =
  onTrackAdded :: "OutputAudioTrack \<Rightarrow> 'f Muxer \<Rightarrow> 'f Muxer"
  writeHeader :: "'f Muxer \<Rightarrow> js_error option \<times> 'f Muxer"
  writeAudioPacket :: "OutputAudioTrack \<Rightarrow> EncodedPacket \<Rightarrow> 'f Muxer \<Rightarrow> js_error option \<times> 'f Muxer"
  writeTrailer :: "'f Muxer \<Rightarrow> js_error option \<times> 'f Muxer"

definition new_Muxer :: "Target \<Rightarrow> 'f \<Rightarrow> 'f Muxer" where
  "new_Muxer target fmt = Muxer.make (new_Writer target) [] 1 False False fmt"

definition addAudioTrack ::
  "'f MuxerClass \<Rightarrow> AudioTrackConfig \<Rightarrow> 'f Muxer \<Rightarrow> OutputAudioTrack \<times> 'f Muxer" where
  "addAudioTrack cls config m =
     (let track = OutputAudioTrack.make (mux_nextTrackId m) config;
          m1 = m\<lparr>mux_nextTrackId := mux_nextTrackId m + 1\<rparr>;
          m2 = m1\<lparr>mux_tracks := mux_tracks m1 @ [track]\<rparr>
      in (track, onTrackAdded cls track m2))"

text \<open>The lazy header emission shared by \<^verbatim>\<open>writePacket\<close> and \<^verbatim>\<open>finalize\<close>.\<close>

definition ensureHeader :: "'f MuxerClass \<Rightarrow> 'f Muxer \<Rightarrow> js_error option \<times> 'f Muxer" where
  "ensureHeader cls m =
     (if \<not> mux_headerWritten m then
        (case writeHeader cls m of
           (Some e, m') \<Rightarrow> (Some e, m')
         | (None, m') \<Rightarrow> (None, m'\<lparr>mux_headerWritten := True\<rparr>))
      else (None, m))"

definition writePacket ::
  "'f MuxerClass \<Rightarrow> int \<Rightarrow> EncodedPacket \<Rightarrow> 'f Muxer \<Rightarrow> js_error option \<times> 'f Muxer" where
  "writePacket cls trackId packet m =
     (case ensureHeader cls m of
        (Some e, m1) \<Rightarrow> (Some e, m1)
      | (None, m1) \<Rightarrow>
          (case find (\<lambda>t. trk_id t = trackId) (mux_tracks m1) of
             None \<Rightarrow> (Some (TrackNotFound trackId), m1)
           | Some track \<Rightarrow> writeAudioPacket cls track packet m1))"

definition finalize ::
  "'f MuxerClass \<Rightarrow> 'f Muxer \<Rightarrow> (js_error + byte list) \<times> 'f Muxer" where
  "finalize cls m =
     (if mux_finalized m then (Inl (Error ''Muxer already finalized''), m)
      else
        (case ensureHeader cls m of
           (Some e, m1) \<Rightarrow> (Inl e, m1)
         | (None, m1) \<Rightarrow>
             (case writeTrailer cls m1 of
                (Some e, m2) \<Rightarrow> (Inl e, m2)
              | (None, m2) \<Rightarrow>
                  let m3 = m2\<lparr>mux_finalized := True\<rparr>;
                      (out, w) = close (mux_writer m3)
                  in (Inr out, m3\<lparr>mux_writer := w\<rparr>))))"

text \<open>\<^verbatim>\<open>get size\<close>: the writer's position.\<close>

definition size_of :: "'f Muxer \<Rightarrow> int" where
  "size_of m = wr_position (mux_writer m)"

text \<open>Writing the buffered packets in order, as every \<^verbatim>\<open>writeTrailer\<close> below does.\<close>

definition writeAll :: "byte list list \<Rightarrow> Writer \<Rightarrow> Writer" where
  "writeAll packets w = foldl (\<lambda>w p. writeBytes p w) w packets"

section \<open>MP3 muxer\<close>

record Mp3Muxer =
  mp3m_packets :: "byte list list"
  mp3m_sampleRate :: int
  mp3m_channels :: int
  mp3m_bitrate :: int

definition new_Mp3Muxer :: "Target \<Rightarrow> Mp3Muxer Muxer" where
  "new_Mp3Muxer target = new_Muxer target (Mp3Muxer.make [] 44100 2 128000)"

definition Mp3MuxerClass :: "Mp3Muxer MuxerClass" where
  "Mp3MuxerClass =
     MuxerClass.make
       (\<lambda>track m. m\<lparr>mux_format := (mux_format m)
            \<lparr>mp3m_sampleRate := cfg_sampleRate (trk_config track),
             mp3m_channels := cfg_channels (trk_config track),
             mp3m_bitrate := (case cfg_bitrate (trk_config track) of
                                Some b \<Rightarrow> b | None \<Rightarrow> 128000)\<rparr>\<rparr>)
       (\<lambda>m. (None, m))
       (\<lambda>track packet m. (None, m\<lparr>mux_format := (mux_format m)
            \<lparr>mp3m_packets := mp3m_packets (mux_format m) @ [pkt_data packet]\<rparr>\<rparr>))
       (\<lambda>m. (None, m\<lparr>mux_writer := writeAll (mp3m_packets (mux_format m)) (mux_writer m)\<rparr>))"

section \<open>AAC (ADTS) muxer\<close>

definition AAC_SAMPLE_RATES :: "int option list" where
  "AAC_SAMPLE_RATES =
     [Some 96000, Some 88200, Some 64000, Some 48000, Some 44100, Some 32000,
      Some 24000, Some 22050, Some 16000, Some 12000, Some 11025, Some 8000, Some 7350,
      None, None, None]"

text \<open>\<^verbatim>\<open>Array.prototype.indexOf\<close>: the first position holding the value, or -1.\<close>

fun indexOf :: "'a list \<Rightarrow> 'a \<Rightarrow> int" where
  "indexOf [] v = -1"
| "indexOf (x # xs) v = (if x = v then 0 else let i = indexOf xs v in if i < 0 then -1 else i + 1)"

definition getSampleRateIndex :: "int \<Rightarrow> int" where
  "getSampleRateIndex sampleRate =
     (let index = indexOf AAC_SAMPLE_RATES (Some sampleRate) in if index \<ge> 0 then index else 4)"

text \<open>Storing a number into a \<^verbatim>\<open>Uint8Array\<close> keeps its low eight bits: \<open>of_int\<close>.\<close>

definition createAdtsHeader :: "int \<Rightarrow> int \<Rightarrow> int \<Rightarrow> int \<Rightarrow> byte list" where
  "createAdtsHeader profile sampleRateIndex channels frameLength =
     [of_int 0xFF,
      of_int 0xF1,
      of_int (js_or (js_or (js_shl (js_and profile 0x03) 6)
                           (js_shl (js_and sampleRateIndex 0x0F) 2))
                    (js_and (js_sar channels 2) 0x01)),
      of_int (js_or (js_shl (js_and channels 0x03) 6) (js_and (js_sar frameLength 11) 0x03)),
      of_int (js_and (js_sar frameLength 3) 0xFF),
      of_int (js_or (js_shl (js_and frameLength 0x07) 5) 0x1F),
      of_int 0xFC]"

record AacMuxer =
  aac_packets :: "byte list list"
  aac_sampleRate :: int
  aac_channels :: int
  aac_profile :: int

definition new_AacMuxer :: "Target \<Rightarrow> AacMuxer Muxer" where
  "new_AacMuxer target = new_Muxer target (AacMuxer.make [] 44100 2 1)"

text \<open>
  The test of \<^verbatim>\<open>AacMuxer.writeAudioPacket\<close>:
  \<^verbatim>\<open>packet.data[0] === 0xFF && (packet.data[1] & 0xF0) === 0xF0\<close>.
\<close>

definition hasAdtsHeader :: "byte list \<Rightarrow> bool" where
  "hasAdtsHeader data =
     (index data 0 = Some 0xFF \<and> js_and (bitop (index data 1)) 0xF0 = 0xF0)"

definition aac_writeAudioPacket :: "EncodedPacket \<Rightarrow> AacMuxer \<Rightarrow> AacMuxer" where
  "aac_writeAudioPacket packet f =
     (if hasAdtsHeader (pkt_data packet) then
        f\<lparr>aac_packets := aac_packets f @ [pkt_data packet]\<rparr>
      else
        let sampleRateIndex = getSampleRateIndex (aac_sampleRate f);
            frameLength = 7 + int (length (pkt_data packet));
            header = createAdtsHeader (aac_profile f) sampleRateIndex (aac_channels f) frameLength;
            frame = header @ pkt_data packet
        in f\<lparr>aac_packets := aac_packets f @ [frame]\<rparr>)"

definition AacMuxerClass :: "AacMuxer MuxerClass" where
  "AacMuxerClass =
     MuxerClass.make
       (\<lambda>track m. m\<lparr>mux_format := (mux_format m)
            \<lparr>aac_sampleRate := cfg_sampleRate (trk_config track),
             aac_channels := cfg_channels (trk_config track)\<rparr>\<rparr>)
       (\<lambda>m. (None, m))
       (\<lambda>track packet m. (None, m\<lparr>mux_format := aac_writeAudioPacket packet (mux_format m)\<rparr>))
       (\<lambda>m. (None, m\<lparr>mux_writer := writeAll (aac_packets (mux_format m)) (mux_writer m)\<rparr>))"

text \<open>
  The specification's test for a payload that already starts with an ADTS sync:
  byte 0 equals 0xFF and \<open>(byte 1 & 0xF6) == 0xF0\<close>.
\<close>

definition spec_adts_sync :: "byte list \<Rightarrow> bool" where
  "spec_adts_sync data =
     (2 \<le> length data \<and> data ! 0 = 0xFF \<and> (data ! 1) AND 0xF6 = 0xF0)"

section \<open>Reader (reader.ts)\<close>

text \<open>
  A source is an in-memory buffer or a stream. The reader never reads from a stream
  (\<^verbatim>\<open>loadSlice\<close> throws for it), so the model keeps no content for a stream source,
  empty or not. File and URL sources reach their bytes through the platform's file and
  HTTP interfaces and are outside the model. Positions, offsets and lengths are natural
  numbers.
\<close>

datatype Source = BufferSource "byte list" | StreamSource

record FileSlice =
  fs_bytes :: "byte list"
  fs_offset :: nat

definition contains :: "FileSlice \<Rightarrow> nat \<Rightarrow> nat \<Rightarrow> bool" where
  "contains sl pos len = (pos \<ge> fs_offset sl \<and> pos + len \<le> fs_offset sl + length (fs_bytes sl))"

definition get :: "FileSlice \<Rightarrow> nat \<Rightarrow> nat \<Rightarrow> byte list" where
  "get sl pos len = (let start = pos - fs_offset sl in subarray (fs_bytes sl) start (start + len))"

record Reader =
  rd_position :: nat
  rd_slice :: "FileSlice option"
  rd_source :: Source
  rd_sourceData :: "byte list option"
  rd_fileSize :: "nat option"

definition DEFAULT_SLICE_SIZE :: nat where
  "DEFAULT_SLICE_SIZE = 64 * 1024"

definition new_Reader :: "Source \<Rightarrow> Reader" where
  "new_Reader source = Reader.make 0 None source None None"

definition init :: "Reader \<Rightarrow> Reader" where
  "init r =
     (case rd_source r of
        BufferSource data \<Rightarrow> r\<lparr>rd_sourceData := Some data, rd_fileSize := Some (length data)\<rparr>
      | StreamSource \<Rightarrow> r)"

definition loadSlice :: "nat \<Rightarrow> nat \<Rightarrow> Reader \<Rightarrow> js_error + Reader" where
  "loadSlice offset len r =
     (case rd_source r of
        BufferSource data \<Rightarrow>
          let r1 = (if rd_sourceData r = None then init r else r);
              sourceData = the (rd_sourceData r1);
              e = min (offset + len) (length sourceData);
              bytes = subarray sourceData offset e
          in Inr (r1\<lparr>rd_slice := Some (FileSlice.make bytes offset)\<rparr>)
      | StreamSource \<Rightarrow> Inl (Error ''Stream source does not support random access''))"

text \<open>The test \<^verbatim>\<open>this.slice?.contains(this._position, length)\<close>: false without a slice.\<close>

definition slice_contains :: "Reader \<Rightarrow> nat \<Rightarrow> bool" where
  "slice_contains r len =
     (case rd_slice r of None \<Rightarrow> False | Some sl \<Rightarrow> contains sl (rd_position r) len)"

definition take_from_slice :: "nat \<Rightarrow> Reader \<Rightarrow> byte list option \<times> Reader" where
  "take_from_slice len r =
     (Some (get (the (rd_slice r)) (rd_position r) len), r\<lparr>rd_position := rd_position r + len\<rparr>)"

definition readBytes :: "nat \<Rightarrow> Reader \<Rightarrow> js_error + (byte list option \<times> Reader)" where
  "readBytes len r =
     (if slice_contains r len then Inr (take_from_slice len r)
      else
        (case loadSlice (rd_position r) (max len DEFAULT_SLICE_SIZE) r of
           Inl e \<Rightarrow> Inl e
         | Inr r1 \<Rightarrow>
             if \<not> slice_contains r1 len then Inr (None, r1)
             else Inr (take_from_slice len r1)))"

text \<open>Sequencing of reader operations; an exception ends the sequence.\<close>

definition bind_io ::
  "('s \<Rightarrow> js_error + ('a \<times> 's)) \<Rightarrow> ('a \<Rightarrow> 's \<Rightarrow> js_error + ('b \<times> 's)) \<Rightarrow> 's \<Rightarrow> js_error + ('b \<times> 's)" where
  "bind_io m f s = (case m s of Inl e \<Rightarrow> Inl e | Inr (a, s') \<Rightarrow> f a s')"

definition return_io :: "'a \<Rightarrow> 's \<Rightarrow> js_error + ('a \<times> 's)" where
  "return_io a s = Inr (a, s)"

definition byte_at :: "byte list \<Rightarrow> nat \<Rightarrow> int" where
  "byte_at bytes i = bitop (index bytes i)"

text \<open>
  The typed readers decode the bytes they were given with the bitwise operators of the
  language; the decoding expressions are named \<open>u16le\<close>, \<open>u32be\<close> and \<open>u32le\<close>.
\<close>

definition u16le :: "byte list \<Rightarrow> int" where
  "u16le b = js_or (byte_at b 0) (js_shl (byte_at b 1) 8)"

definition u32be :: "byte list \<Rightarrow> int" where
  "u32be b =
     js_shr (js_or (js_or (js_or (js_shl (byte_at b 0) 24) (js_shl (byte_at b 1) 16))
                          (js_shl (byte_at b 2) 8))
                   (byte_at b 3)) 0"

definition u32le :: "byte list \<Rightarrow> int" where
  "u32le b =
     js_shr (js_or (js_or (js_or (byte_at b 0) (js_shl (byte_at b 1) 8))
                          (js_shl (byte_at b 2) 16))
                   (js_shl (byte_at b 3) 24)) 0"

definition readU8 :: "Reader \<Rightarrow> js_error + (int option \<times> Reader)" where
  "readU8 = bind_io (readBytes 1) (\<lambda>bytes. return_io (map_option (\<lambda>b. byte_at b 0) bytes))"

definition readU16LE :: "Reader \<Rightarrow> js_error + (int option \<times> Reader)" where
  "readU16LE = bind_io (readBytes 2) (\<lambda>bytes. return_io (map_option u16le bytes))"

definition readU32BE :: "Reader \<Rightarrow> js_error + (int option \<times> Reader)" where
  "readU32BE = bind_io (readBytes 4) (\<lambda>bytes. return_io (map_option u32be bytes))"

definition readU32LE :: "Reader \<Rightarrow> js_error + (int option \<times> Reader)" where
  "readU32LE = bind_io (readBytes 4) (\<lambda>bytes. return_io (map_option u32le bytes))"

text \<open>\<^verbatim>\<open>readFourCC\<close>: the four character codes, kept as bytes.\<close>

definition readFourCC :: "Reader \<Rightarrow> js_error + (byte list option \<times> Reader)" where
  "readFourCC = readBytes 4"

definition skip :: "nat \<Rightarrow> Reader \<Rightarrow> js_error + (unit \<times> Reader)" where
  "skip len r = Inr ((), r\<lparr>rd_position := rd_position r + len\<rparr>)"

definition seek :: "nat \<Rightarrow> Reader \<Rightarrow> js_error + (unit \<times> Reader)" where
  "seek pos r = Inr ((), r\<lparr>rd_position := pos\<rparr>)"

text \<open>
  The state of a reader over the buffer \<open>data\<close> that its own operations can produce: the
  cached slice, if there is one, is a window of \<open>data\<close> at its offset.
\<close>

definition reader_ok :: "byte list \<Rightarrow> Reader \<Rightarrow> bool" where
  "reader_ok data r =
     (rd_source r = BufferSource data
      \<and> (rd_sourceData r = None \<or> rd_sourceData r = Some data)
      \<and> (case rd_slice r of
            None \<Rightarrow> True
          | Some sl \<Rightarrow> fs_bytes sl = take (length (fs_bytes sl)) (drop (fs_offset sl) data)))"

section \<open>Format detection (input.ts and the canRead of the five formats)\<close>

definition RIFF_MAGIC :: int where "RIFF_MAGIC = 0x52494646"
definition RF64_MAGIC :: int where "RF64_MAGIC = 0x52463634"
definition WAVE_MAGIC :: int where "WAVE_MAGIC = 0x57415645"
definition FMT_MAGIC :: int where "FMT_MAGIC = 0x666D7420"
definition DATA_MAGIC :: int where "DATA_MAGIC = 0x64617461"
definition DS64_MAGIC :: int where "DS64_MAGIC = 0x64733634"
definition LIST_MAGIC :: int where "LIST_MAGIC = 0x4C495354"
definition INFO_MAGIC :: int where "INFO_MAGIC = 0x494E464F"


definition wav_canRead :: "Source \<Rightarrow> js_error + bool" where
  "wav_canRead source =
     (case readU32BE ((new_Reader source)\<lparr>rd_position := 0\<rparr>) of
        Inl e \<Rightarrow> Inl e
      | Inr (riff, r) \<Rightarrow>
          if riff \<noteq> Some RIFF_MAGIC \<and> riff \<noteq> Some RF64_MAGIC then Inr False
          else
            (case bind_io (skip 4) (\<lambda>_. readU32BE) r of
               Inl e \<Rightarrow> Inl e
             | Inr (wave, r') \<Rightarrow> Inr (wave = Some WAVE_MAGIC)))"



definition aac_canRead :: "Source \<Rightarrow> js_error + bool" where
  "aac_canRead source =
     (case readBytes 4 ((new_Reader source)\<lparr>rd_position := 0\<rparr>) of
        Inl e \<Rightarrow> Inl e
      | Inr (None, r) \<Rightarrow> Inr False
      | Inr (Some header, r) \<Rightarrow>
          Inr (index header 0 = Some 0xFF \<and> js_and (byte_at header 1) 0xF6 = 0xF0))"

record InputFormat =
  fmt_name :: string
  fmt_canRead :: "Source \<Rightarrow> js_error + bool"

definition WAV :: InputFormat where "WAV = InputFormat.make ''wav'' wav_canRead"


section \<open>WAV demuxer: init\<close>

text \<open>
  Results of the floating-point divisions of \<^verbatim>\<open>init\<close>. A finite result is a rational:
  the model divides exactly where the source rounds to the nearest double, so the two
  agree whenever the exact quotient is a double, as it is for the integral durations
  below. A division by zero gives an infinity or NaN, as in the source. \<^verbatim>\<open>null\<close>
  converts to 0.
\<close>

datatype number = Finite rat | Infinity | NegInfinity | NaN

fun js_div :: "number \<Rightarrow> number \<Rightarrow> number" where
  "js_div (Finite a) (Finite b) =
     (if b \<noteq> 0 then Finite (a / b)
      else if a = 0 then NaN else if a > 0 then Infinity else NegInfinity)"
| "js_div (Finite a) Infinity = Finite 0"
| "js_div (Finite a) NegInfinity = Finite 0"
| "js_div Infinity (Finite b) = (if b \<ge> 0 then Infinity else NegInfinity)"
| "js_div NegInfinity (Finite b) = (if b \<ge> 0 then NegInfinity else Infinity)"
| "js_div _ _ = NaN"

fun num :: "int option \<Rightarrow> rat" where
  "num None = 0"
| "num (Some v) = of_int v"

fun num_int :: "int option \<Rightarrow> int" where
  "num_int None = 0"
| "num_int (Some v) = v"

record WavFormat =
  wf_formatCode :: "int option"
  wf_channels :: "int option"
  wf_sampleRate :: "int option"
  wf_byteRate :: "int option"
  wf_blockAlign :: "int option"
  wf_bitsPerSample :: "int option"
  wf_validBitsPerSample :: "int option"
  wf_channelMask :: "int option"
  wf_subFormat :: "byte list option"

record RiffChunk =
  rc_id :: int
  rc_size :: int
  rc_offset :: nat

record Ds64Chunk =
  ds_riffSize :: int
  ds_dataSize :: int
  ds_sampleCount :: int
  ds_tableLength :: "int option"

datatype SampleFormat = u8 | s16 | s24 | s32 | f32 | f64

record AudioTrack =
  at_id :: int
  at_index :: int
  at_codec :: string
  at_sampleRate :: "int option"
  at_channels :: "int option"
  at_bitDepth :: "int option"
  at_sampleFormat :: SampleFormat
  at_bitrate :: rat
  at_isDefault :: bool

definition RF64_SIZE_PLACEHOLDER :: int where "RF64_SIZE_PLACEHOLDER = 0xFFFFFFFF"
definition WAVE_FORMAT_PCM :: int where "WAVE_FORMAT_PCM = 0x0001"
definition WAVE_FORMAT_IEEE_FLOAT :: int where "WAVE_FORMAT_IEEE_FLOAT = 0x0003"
definition WAVE_FORMAT_ALAW :: int where "WAVE_FORMAT_ALAW = 0x0006"
definition WAVE_FORMAT_MULAW :: int where "WAVE_FORMAT_MULAW = 0x0007"
definition WAVE_FORMAT_EXTENSIBLE :: int where "WAVE_FORMAT_EXTENSIBLE = 0xFFFE"

definition formatCodeToCodec :: "int option \<Rightarrow> string" where
  "formatCodeToCodec code =
     (if code = Some WAVE_FORMAT_PCM then ''pcm''
      else if code = Some WAVE_FORMAT_IEEE_FLOAT then ''pcm''
      else if code = Some WAVE_FORMAT_ALAW then ''alaw''
      else if code = Some WAVE_FORMAT_MULAW then ''ulaw''
      else ''pcm'')"

definition formatToSampleFormat :: "WavFormat \<Rightarrow> SampleFormat" where
  "formatToSampleFormat format =
     (if wf_formatCode format = Some WAVE_FORMAT_IEEE_FLOAT then
        (if wf_bitsPerSample format = Some 64 then f64 else f32)
      else if wf_bitsPerSample format = Some 8 then u8
      else if wf_bitsPerSample format = Some 16 then s16
      else if wf_bitsPerSample format = Some 24 then s24
      else if wf_bitsPerSample format = Some 32 then s32
      else s16)"

text \<open>
  The fields of \<^verbatim>\<open>WavDemuxer\<close> and of its base class. \<open>wd_info\<close> is the \<^verbatim>\<open>infoChunk\<close>
  collected from a LIST/INFO chunk, with the values as the bytes before the first NUL;
  their decoding into the strings of \<^verbatim>\<open>_metadata\<close> is not modelled.
\<close>

record WavDemuxer =
  wd_reader :: Reader
  wd_format :: "WavFormat option"
  wd_dataChunk :: "RiffChunk option"
  wd_ds64 :: "Ds64Chunk option"
  wd_isRf64 :: bool
  wd_currentPosition :: nat
  wd_bytesPerSample :: number
  wd_samplesRead :: number
  wd_totalSamples :: number
  wd_initialized :: bool
  wd_tracks :: "AudioTrack list"
  wd_duration :: number
  wd_info :: "(byte list \<times> byte list) list"

definition new_WavDemuxer :: "Source \<Rightarrow> WavDemuxer" where
  "new_WavDemuxer source =
     WavDemuxer.make (new_Reader source) None None None False 0 (Finite 0) (Finite 0) (Finite 0)
       False [] (Finite 0) []"

text \<open>A reader operation run on the demuxer's reader.\<close>

definition on_reader ::
  "(Reader \<Rightarrow> js_error + ('a \<times> Reader)) \<Rightarrow> WavDemuxer \<Rightarrow> js_error + ('a \<times> WavDemuxer)" where
  "on_reader f d =
     (case f (wd_reader d) of Inl e \<Rightarrow> Inl e | Inr (a, r) \<Rightarrow> Inr (a, d\<lparr>wd_reader := r\<rparr>))"

definition parseFmtChunk :: "int \<Rightarrow> WavDemuxer \<Rightarrow> js_error + (unit \<times> WavDemuxer)" where
  "parseFmtChunk sz =
     bind_io (on_reader readU16LE) (\<lambda>formatCode.
     bind_io (on_reader readU16LE) (\<lambda>channels.
     bind_io (on_reader readU32LE) (\<lambda>sampleRate.
     bind_io (on_reader readU32LE) (\<lambda>byteRate.
     bind_io (on_reader readU16LE) (\<lambda>blockAlign.
     bind_io (on_reader readU16LE) (\<lambda>bitsPerSample.
     bind_io (\<lambda>d. Inr ((), d\<lparr>wd_format := Some (WavFormat.make formatCode channels sampleRate
                        byteRate blockAlign bitsPerSample None None None)\<rparr>)) (\<lambda>_.
     if sz > 16 then
       bind_io (on_reader readU16LE) (\<lambda>extSize.
         if extSize \<noteq> None \<and> extSize \<noteq> Some 0 \<and> the extSize \<ge> 22
            \<and> formatCode = Some WAVE_FORMAT_EXTENSIBLE
         then
           bind_io (on_reader readU16LE) (\<lambda>validBits.
           bind_io (\<lambda>d. Inr ((), d\<lparr>wd_format :=
                      map_option (\<lambda>f. f\<lparr>wf_validBitsPerSample := validBits\<rparr>) (wd_format d)\<rparr>)) (\<lambda>_.
           bind_io (on_reader readU32LE) (\<lambda>channelMask.
           bind_io (\<lambda>d. Inr ((), d\<lparr>wd_format :=
                      map_option (\<lambda>f. f\<lparr>wf_channelMask := channelMask\<rparr>) (wd_format d)\<rparr>)) (\<lambda>_.
           bind_io (on_reader (readBytes 16)) (\<lambda>subFormat.
           (\<lambda>d. Inr ((), d\<lparr>wd_format :=
                      map_option (\<lambda>f. f\<lparr>wf_subFormat := subFormat\<rparr>) (wd_format d)\<rparr>)))))))
         else return_io ())
     else return_io ())))))))"

text \<open>\<^verbatim>\<open>BigInt(x!)\<close> throws a TypeError when the read gave \<^verbatim>\<open>null\<close>.\<close>

definition BigInt :: "int option \<Rightarrow> 's \<Rightarrow> js_error + (int \<times> 's)" where
  "BigInt v s = (case v of None \<Rightarrow> Inl TypeError | Some n \<Rightarrow> Inr (n, s))"

definition parseDs64Chunk :: "int \<Rightarrow> WavDemuxer \<Rightarrow> js_error + (unit \<times> WavDemuxer)" where
  "parseDs64Chunk sz =
     bind_io (on_reader readU32LE) (\<lambda>riffSizeLow.
     bind_io (on_reader readU32LE) (\<lambda>riffSizeHigh.
     bind_io (on_reader readU32LE) (\<lambda>dataSizeLow.
     bind_io (on_reader readU32LE) (\<lambda>dataSizeHigh.
     bind_io (on_reader readU32LE) (\<lambda>sampleCountLow.
     bind_io (on_reader readU32LE) (\<lambda>sampleCountHigh.
     bind_io (on_reader readU32LE) (\<lambda>tableLength.
     bind_io (BigInt riffSizeLow) (\<lambda>rl. bind_io (BigInt riffSizeHigh) (\<lambda>rh.
     bind_io (BigInt dataSizeLow) (\<lambda>dl. bind_io (BigInt dataSizeHigh) (\<lambda>dh.
     bind_io (BigInt sampleCountLow) (\<lambda>sl. bind_io (BigInt sampleCountHigh) (\<lambda>sh.
     bind_io (\<lambda>d. Inr ((), d\<lparr>wd_ds64 := Some (Ds64Chunk.make (rl OR push_bit 32 rh)
                        (dl OR push_bit 32 dh) (sl OR push_bit 32 sh) tableLength)\<rparr>)) (\<lambda>_.
     if sz > 28 \<and> num_int tableLength > 0 then on_reader (skip (nat (sz - 28)))
     else return_io ()))))))))))))))"

definition wd_position :: "WavDemuxer \<Rightarrow> nat" where
  "wd_position d = rd_position (wd_reader d)"

definition info_step ::
  "(byte list \<times> byte list) list \<Rightarrow> WavDemuxer
     \<Rightarrow> js_error + ((bool \<times> (byte list \<times> byte list) list) \<times> WavDemuxer)" where
  "info_step info =
     bind_io (on_reader readFourCC) (\<lambda>tagId.
     bind_io (on_reader readU32LE) (\<lambda>tagSize.
     if tagId = None \<or> tagSize = None then return_io (False, info)
     else
       bind_io (on_reader (readBytes (nat (the tagSize)))) (\<lambda>tagData.
       bind_io (if the tagSize mod 2 \<noteq> 0 then on_reader (skip 1) else return_io ()) (\<lambda>_.
       return_io (True,
         (case tagData of
            None \<Rightarrow> info
          | Some td \<Rightarrow> AList.update (the tagId) (takeWhile (\<lambda>b. b \<noteq> 0) td) info))))))"

lemma readBytes_position:
  "readBytes n r = Inr (x, r') \<Longrightarrow>
   rd_position r' = (if x = None then rd_position r else rd_position r + n)"
  by (auto simp: readBytes_def take_from_slice_def loadSlice_def init_def Let_def
           split: if_splits sum.splits Source.splits)

lemma bind_io_Inr:
  "bind_io m f s = Inr (b, s'') \<Longrightarrow> \<exists>a s'. m s = Inr (a, s') \<and> f a s' = Inr (b, s'')"
  by (auto simp: bind_io_def split: sum.splits)

lemma on_reader_Inr:
  "on_reader f d = Inr (a, d') \<Longrightarrow> \<exists>r'. f (wd_reader d) = Inr (a, r') \<and> d' = d\<lparr>wd_reader := r'\<rparr>"
  by (auto simp: on_reader_def split: sum.splits)

lemma mapped_read_position:
  assumes "bind_io (readBytes n) (\<lambda>bytes. return_io (map_option g bytes)) r = Inr (v, r')"
  shows "rd_position r' = (if v = None then rd_position r else rd_position r + n)"
proof -
  from assms obtain bytes where rb: "readBytes n r = Inr (bytes, r')" and v: "v = map_option g bytes"
    by (auto simp: return_io_def dest!: bind_io_Inr)
  from readBytes_position [OF rb] v show ?thesis by (cases bytes) auto
qed

lemma typed_read_position:
  "readU8 r = Inr (v, r') \<Longrightarrow> rd_position r' = (if v = None then rd_position r else rd_position r + 1)"
  "readU16LE r = Inr (v, r') \<Longrightarrow> rd_position r' = (if v = None then rd_position r else rd_position r + 2)"
  "readU32BE r = Inr (v, r') \<Longrightarrow> rd_position r' = (if v = None then rd_position r else rd_position r + 4)"
  "readU32LE r = Inr (v, r') \<Longrightarrow> rd_position r' = (if v = None then rd_position r else rd_position r + 4)"
  "readFourCC r = Inr (w, r') \<Longrightarrow> rd_position r' = (if w = None then rd_position r else rd_position r + 4)"
  unfolding readU8_def readU16LE_def readU32BE_def readU32LE_def readFourCC_def
  by (erule mapped_read_position readBytes_position)+

lemma on_reader_position:
  assumes "on_reader f d = Inr (a, d')"
    and "\<And>r'. f (wd_reader d) = Inr (a, r') \<Longrightarrow> rd_position r' = k"
  shows "wd_position d' = k"
  using assms by (auto simp: wd_position_def dest!: on_reader_Inr)

lemma info_step_progress:
  assumes "info_step info d = Inr ((True, info'), d')"
  shows "wd_position d + 8 \<le> wd_position d'"
proof -
  from assms obtain tagId d1 tagSize d2 where
    a: "on_reader readFourCC d = Inr (tagId, d1)"
    and b: "on_reader readU32LE d1 = Inr (tagSize, d2)"
    and rest: "(if tagId = None \<or> tagSize = None then return_io (False, info)
       else
       bind_io (on_reader (readBytes (nat (the tagSize)))) (\<lambda>tagData.
       bind_io (if the tagSize mod 2 \<noteq> 0 then on_reader (skip 1) else return_io ()) (\<lambda>_.
       return_io (True,
         (case tagData of
            None \<Rightarrow> info
          | Some td \<Rightarrow> AList.update (the tagId) (takeWhile (\<lambda>b. b \<noteq> 0) td) info))))) d2
        = Inr ((True, info'), d')"
    unfolding info_step_def by (blast dest!: bind_io_Inr)
  from rest have ok: "tagId \<noteq> None" "tagSize \<noteq> None"
    by (auto simp: return_io_def split: if_splits)
  have p1: "wd_position d1 = wd_position d + 4"
    using a ok(1) by (auto simp: wd_position_def dest!: on_reader_Inr dest: typed_read_position)
  have p2: "wd_position d2 = wd_position d1 + 4"
    using b ok(2) by (auto simp: wd_position_def dest!: on_reader_Inr dest: typed_read_position)
  from rest ok obtain tagData d3 u where
    c: "on_reader (readBytes (nat (the tagSize))) d2 = Inr (tagData, d3)"
    and e: "(if the tagSize mod 2 \<noteq> 0 then on_reader (skip 1) else return_io ()) d3 = Inr (u, d')"
    by (auto simp: return_io_def dest!: bind_io_Inr)
  have p3: "wd_position d2 \<le> wd_position d3"
    using c by (auto simp: wd_position_def dest!: on_reader_Inr dest: readBytes_position split: if_splits)
  have p4: "wd_position d3 \<le> wd_position d'"
    using e by (auto simp: wd_position_def return_io_def skip_def dest!: on_reader_Inr split: if_splits)
  from p1 p2 p3 p4 show ?thesis by linarith
qed

function info_loop ::
  "int \<Rightarrow> (byte list \<times> byte list) list \<Rightarrow> WavDemuxer
     \<Rightarrow> js_error + ((byte list \<times> byte list) list \<times> WavDemuxer)" where
  "info_loop endPos info d =
     (if int (wd_position d) < endPos - 8 then
        (case info_step info d of
           Inl e \<Rightarrow> Inl e
         | Inr ((False, info'), d') \<Rightarrow> Inr (info', d')
         | Inr ((True, info'), d') \<Rightarrow> info_loop endPos info' d')
      else Inr (info, d))"
  by pat_completeness auto
termination
  apply (relation "measure (\<lambda>(endPos, info, d). nat (endPos - int (wd_position d)))")
   apply simp
  apply (auto dest!: info_step_progress)
  done

declare info_loop.simps [simp del]

definition parseInfoChunk ::
  "int \<Rightarrow> WavDemuxer \<Rightarrow> js_error + ((byte list \<times> byte list) list \<times> WavDemuxer)" where
  "parseInfoChunk sz d = info_loop (int (wd_position d) + sz) [] d"

definition advances :: "(WavDemuxer \<Rightarrow> js_error + ('a \<times> WavDemuxer)) \<Rightarrow> bool" where
  "advances f = (\<forall>d a d'. f d = Inr (a, d') \<longrightarrow> wd_position d \<le> wd_position d')"

lemma advancesD: "advances f \<Longrightarrow> f d = Inr (a, d') \<Longrightarrow> wd_position d \<le> wd_position d'"
  by (auto simp: advances_def)

lemma advances_bind: "advances f \<Longrightarrow> (\<And>a. advances (g a)) \<Longrightarrow> advances (bind_io f g)"
  unfolding advances_def
  by (metis bind_io_Inr order_trans)

lemma advances_return: "advances (return_io a)"
  by (simp add: advances_def return_io_def)

lemma advances_if: "advances f \<Longrightarrow> advances g \<Longrightarrow> advances (if c then f else g)"
  by simp

lemma advances_reads:
  "advances (on_reader readU16LE)" "advances (on_reader readU32LE)"
  "advances (on_reader readU32BE)" "advances (on_reader readFourCC)"
  "advances (on_reader (readBytes n))" "advances (on_reader (skip n))"
  unfolding advances_def wd_position_def
  by (auto dest!: on_reader_Inr dest: typed_read_position readBytes_position
           simp: skip_def split: if_splits)

lemma advances_update:
  "(\<And>d. wd_reader (u d) = wd_reader d) \<Longrightarrow> advances (\<lambda>d. Inr (a, u d))"
  by (simp add: advances_def wd_position_def)

lemma advances_parseFmtChunk: "advances (parseFmtChunk sz)"
  unfolding parseFmtChunk_def
  by (intro advances_bind advances_if advances_return advances_reads advances_update) simp_all

lemma advances_info_step: "advances (info_step info)"
  unfolding info_step_def
  by (intro advances_bind advances_if advances_return advances_reads)

lemma info_loop_advances_aux:
  "info_loop endPos info d = Inr (info', d') \<Longrightarrow> wd_position d \<le> wd_position d'"
proof (induction endPos info d rule: info_loop.induct)
  case (1 endPos info d)
  show ?case
  proof (cases "int (wd_position d) < endPos - 8")
    case False
    with "1.prems" show ?thesis by (simp add: info_loop.simps [of endPos info d])
  next
    case True
    with "1.prems" obtain b i1 d1 where st: "info_step info d = Inr ((b, i1), d1)"
      by (auto simp: info_loop.simps [of endPos info d] split: sum.splits)
    have le: "wd_position d \<le> wd_position d1"
      by (rule advancesD [OF advances_info_step st])
    show ?thesis
    proof (cases b)
      case False
      with "1.prems" True st le show ?thesis by (simp add: info_loop.simps [of endPos info d])
    next
      case b: True
      with "1.prems" True st have "info_loop endPos i1 d1 = Inr (info', d')"
        by (simp add: info_loop.simps [of endPos info d])
      from "1.IH" [OF True st refl refl _ this] b le show ?thesis by simp
    qed
  qed
qed

lemma advances_parseInfoChunk: "advances (parseInfoChunk sz)"
  unfolding advances_def parseInfoChunk_def by (blast dest: info_loop_advances_aux)

definition chunk_dispatch :: "int \<Rightarrow> int \<Rightarrow> nat \<Rightarrow> WavDemuxer \<Rightarrow> js_error + (unit \<times> WavDemuxer)" where
  "chunk_dispatch chunkId chunkSize chunkOffset =
     (if chunkId = FMT_MAGIC then parseFmtChunk chunkSize
      else if chunkId = DATA_MAGIC then
        (\<lambda>d. let actualSize =
                   (if wd_isRf64 d \<and> wd_ds64 d \<noteq> None \<and> chunkSize = RF64_SIZE_PLACEHOLDER
                    then ds_dataSize (the (wd_ds64 d)) else chunkSize)
             in Inr ((), d\<lparr>wd_dataChunk := Some (RiffChunk.make chunkId actualSize chunkOffset)\<rparr>))
      else if chunkId = DS64_MAGIC then return_io ()
      else if chunkId = LIST_MAGIC then
        bind_io (on_reader readU32BE) (\<lambda>listType.
          if listType = Some INFO_MAGIC then
            bind_io (parseInfoChunk (chunkSize - 4)) (\<lambda>info d. Inr ((), d\<lparr>wd_info := info\<rparr>))
          else return_io ())
      else return_io ())"

definition chunk_next :: "nat \<Rightarrow> int \<Rightarrow> WavDemuxer \<Rightarrow> js_error + (bool \<times> WavDemuxer)" where
  "chunk_next chunkOffset chunkSize d =
     (let nextPos = int chunkOffset + chunkSize + chunkSize mod 2
      in Inr (True, if nextPos > int (wd_position d)
                    then d\<lparr>wd_reader := (wd_reader d)\<lparr>rd_position := nat nextPos\<rparr>\<rparr>
                    else d))"

definition chunk_body :: "int \<Rightarrow> int \<Rightarrow> WavDemuxer \<Rightarrow> js_error + (bool \<times> WavDemuxer)" where
  "chunk_body chunkId chunkSize0 d =
     (let chunkSize =
            (if wd_isRf64 d \<and> wd_ds64 d \<noteq> None \<and> chunkSize0 = RF64_SIZE_PLACEHOLDER
                \<and> chunkId = DATA_MAGIC
             then ds_dataSize (the (wd_ds64 d)) else chunkSize0);
          chunkOffset = wd_position d
      in bind_io (chunk_dispatch chunkId chunkSize chunkOffset)
           (\<lambda>_. chunk_next chunkOffset chunkSize) d)"

definition chunk_step :: "WavDemuxer \<Rightarrow> js_error + (bool \<times> WavDemuxer)" where
  "chunk_step =
     bind_io (on_reader readU32BE) (\<lambda>chunkId.
     bind_io (on_reader readU32LE) (\<lambda>chunkSize.
     if chunkId = None \<or> chunkSize = None then return_io False
     else chunk_body (the chunkId) (the chunkSize)))"

lemma advances_chunk_dispatch: "advances (chunk_dispatch chunkId chunkSize chunkOffset)"
  unfolding chunk_dispatch_def Let_def
  by (intro advances_bind advances_if advances_return advances_reads advances_update
        advances_parseFmtChunk advances_parseInfoChunk) simp_all

lemma advances_chunk_next: "advances (chunk_next chunkOffset chunkSize)"
  by (auto simp: advances_def chunk_next_def wd_position_def Let_def)

lemma advances_chunk_body: "advances (chunk_body chunkId chunkSize0)"
  unfolding advances_def
proof (intro allI impI)
  fix d a d'
  assume "chunk_body chunkId chunkSize0 d = Inr (a, d')"
  then obtain c where
    "bind_io (chunk_dispatch chunkId c (wd_position d)) (\<lambda>_. chunk_next (wd_position d) c) d
       = Inr (a, d')"
    by (simp add: chunk_body_def Let_def)
  moreover have "advances (bind_io (chunk_dispatch chunkId c (wd_position d))
                    (\<lambda>_. chunk_next (wd_position d) c))"
    by (intro advances_bind advances_chunk_dispatch advances_chunk_next)
  ultimately show "wd_position d \<le> wd_position d'"
    by (rule advancesD [rotated])
qed

lemma chunk_step_progress:
  assumes "chunk_step d = Inr (True, d')"
  shows "wd_position d + 8 \<le> wd_position d'"
proof -
  from assms obtain chunkId d1 chunkSize d2 where
    a: "on_reader readU32BE d = Inr (chunkId, d1)"
    and b: "on_reader readU32LE d1 = Inr (chunkSize, d2)"
    and rest: "(if chunkId = None \<or> chunkSize = None then return_io False
                else chunk_body (the chunkId) (the chunkSize)) d2 = Inr (True, d')"
    unfolding chunk_step_def by (blast dest!: bind_io_Inr)
  from rest have ok: "chunkId \<noteq> None" "chunkSize \<noteq> None"
    by (auto simp: return_io_def split: if_splits)
  have p1: "wd_position d1 = wd_position d + 4"
    using a ok(1) by (auto simp: wd_position_def dest!: on_reader_Inr dest: typed_read_position)
  have p2: "wd_position d2 = wd_position d1 + 4"
    using b ok(2) by (auto simp: wd_position_def dest!: on_reader_Inr dest: typed_read_position)
  have "wd_position d2 \<le> wd_position d'"
    using rest ok advancesD [OF advances_chunk_body] by auto
  with p1 p2 show ?thesis by linarith
qed

function parseChunks :: "int \<Rightarrow> WavDemuxer \<Rightarrow> js_error + (unit \<times> WavDemuxer)" where
  "parseChunks endPosition d =
     (if int (wd_position d) < endPosition then
        (case chunk_step d of
           Inl e \<Rightarrow> Inl e
         | Inr (False, d') \<Rightarrow> Inr ((), d')
         | Inr (True, d') \<Rightarrow> parseChunks endPosition d')
      else Inr ((), d))"
  by pat_completeness auto
termination
  apply (relation "measure (\<lambda>(endPosition, d). nat (endPosition - int (wd_position d)))")
   apply simp
  apply (auto dest!: chunk_step_progress)
  done

declare parseChunks.simps [simp del]

fun js_mul :: "number \<Rightarrow> number \<Rightarrow> number" where
  "js_mul (Finite a) (Finite b) = Finite (a * b)"
| "js_mul NaN _ = NaN"
| "js_mul _ NaN = NaN"
| "js_mul (Finite a) Infinity = (if a = 0 then NaN else if a > 0 then Infinity else NegInfinity)"
| "js_mul (Finite a) NegInfinity = (if a = 0 then NaN else if a > 0 then NegInfinity else Infinity)"
| "js_mul Infinity (Finite b) = (if b = 0 then NaN else if b > 0 then Infinity else NegInfinity)"
| "js_mul NegInfinity (Finite b) = (if b = 0 then NaN else if b > 0 then NegInfinity else Infinity)"
| "js_mul Infinity Infinity = Infinity"
| "js_mul NegInfinity NegInfinity = Infinity"
| "js_mul Infinity NegInfinity = NegInfinity"
| "js_mul NegInfinity Infinity = NegInfinity"

definition throw :: "string \<Rightarrow> 's \<Rightarrow> js_error + ('a \<times> 's)" where
  "throw msg s = Inl (Error msg)"

definition finish_init :: "WavDemuxer \<Rightarrow> js_error + (unit \<times> WavDemuxer)" where
  "finish_init d =
     (case wd_format d of
        None \<Rightarrow> Inl (Error ''Invalid WAV file: missing fmt chunk'')
      | Some format \<Rightarrow>
          (case wd_dataChunk d of
             None \<Rightarrow> Inl (Error ''Invalid WAV file: missing data chunk'')
           | Some dataChunk \<Rightarrow>
               let bytesPerSample = js_div (Finite (num (wf_bitsPerSample format))) (Finite 8);
                   totalSamples =
                     js_div (Finite (of_int (rc_size dataChunk)))
                       (js_mul bytesPerSample (Finite (num (wf_channels format))));
                   track = AudioTrack.make 1 0 (formatCodeToCodec (wf_formatCode format))
                             (wf_sampleRate format) (wf_channels format) (wf_bitsPerSample format)
                             (formatToSampleFormat format) (num (wf_byteRate format) * 8) True;
                   duration = js_div totalSamples (Finite (num (wf_sampleRate format)))
               in Inr ((), d\<lparr>wd_bytesPerSample := bytesPerSample,
                               wd_totalSamples := totalSamples,
                               wd_tracks := [track],
                               wd_duration := duration,
                               wd_currentPosition := rc_offset dataChunk\<rparr>)))"

definition read_ds64_first :: "int option \<Rightarrow> WavDemuxer \<Rightarrow> js_error + (int option \<times> WavDemuxer)" where
  "read_ds64_first fileSize d =
     (if wd_isRf64 d then
        bind_io (on_reader readU32BE) (\<lambda>ds64Id.
        bind_io (on_reader readU32LE) (\<lambda>ds64Size.
        if ds64Id = Some DS64_MAGIC \<and> ds64Size \<noteq> None then
          bind_io (parseDs64Chunk (the ds64Size))
            (\<lambda>_ d. Inr (Some (ds_riffSize (the (wd_ds64 d)) AND 0xFFFFFFFF), d))
        else throw ''Invalid RF64 file: ds64 chunk must be first'')) d
      else Inr (fileSize, d))"

definition wav_init :: "WavDemuxer \<Rightarrow> js_error + (unit \<times> WavDemuxer)" where
  "wav_init d =
     (if wd_initialized d then Inr ((), d)
      else
        bind_io (on_reader readU32BE) (\<lambda>riffMagic.
        bind_io (if riffMagic = Some RF64_MAGIC then (\<lambda>d. Inr ((), d\<lparr>wd_isRf64 := True\<rparr>))
                 else if riffMagic \<noteq> Some RIFF_MAGIC
                 then throw ''Invalid WAV file: missing RIFF/RF64 header''
                 else return_io ()) (\<lambda>_.
        bind_io (on_reader readU32LE) (\<lambda>fileSize0.
        bind_io (on_reader readU32BE) (\<lambda>waveMagic.
        if waveMagic \<noteq> Some WAVE_MAGIC then throw ''Invalid WAV file: missing WAVE identifier''
        else
          bind_io (read_ds64_first fileSize0) (\<lambda>fileSize d.
            let endPosition =
                  (if wd_isRf64 d \<and> wd_ds64 d \<noteq> None then ds_riffSize (the (wd_ds64 d)) + 8
                   else 8 + num_int fileSize)
            in bind_io (parseChunks endPosition) (\<lambda>_. finish_init) d)))))
          (d\<lparr>wd_initialized := True, wd_reader := (wd_reader d)\<lparr>rd_position := 0\<rparr>\<rparr>))"

definition wav_getDuration :: "Source \<Rightarrow> js_error + number" where
  "wav_getDuration source =
     (case wav_init (new_WavDemuxer source) of
        Inl e \<Rightarrow> Inl e
      | Inr (_, d) \<Rightarrow> Inr (wd_duration d))"

definition pcm16_mono_44100 :: "byte list \<Rightarrow> byte list \<Rightarrow> byte list \<Rightarrow> byte list" where
  "pcm16_mono_44100 riffSize dataSize pcm =
     ascii_bytes ''RIFF'' @ riffSize @ ascii_bytes ''WAVEfmt '' @
     [16, 0, 0, 0,  1, 0,  1, 0,  0x44, 0xAC, 0, 0,  0x88, 0x58, 0x01, 0,  2, 0,  16, 0] @
     ascii_bytes ''data'' @ dataSize @ pcm"

section \<open>Scenarios\<close>

text \<open>
  An MP3 muxer over a buffer target to which one track was added and one packet written,
  and on which \<^verbatim>\<open>finalize()\<close> has completed.
\<close>

definition finalized_mp3_muxer :: "Mp3Muxer Muxer" where
  "finalized_mp3_muxer =
     snd (finalize Mp3MuxerClass
       (snd (writePacket Mp3MuxerClass 1 (EncodedPacket.make [0xFF, 0xFB] 0 True 1)
         (snd (addAudioTrack Mp3MuxerClass (AudioTrackConfig.make ''mp3'' 44100 2 None)
           (new_Mp3Muxer BufferTarget))))))"

section \<open>Verified properties\<close>

text \<open>
  C8. With its default polynomial and initial value, \<open>crc32\<close> of the empty byte
  sequence is 0, and \<open>crc32\<close> of the nine ASCII bytes of "123456789" is the standard
  check value 0xCBF43926.
\<close>

theorem crc32_reference_values:
  "crc32_default [] = 0
   \<and> ascii_bytes ''123456789'' = [0x31, 0x32, 0x33, 0x34, 0x35, 0x36, 0x37, 0x38, 0x39]
   \<and> crc32_default (ascii_bytes ''123456789'') = 0xCBF43926"
  by code_simp

text \<open>
  C4. A 34-byte STREAMINFO payload whose 5-bit bits-per-sample field is 31 (lowest bit of
  byte 12 set, upper nibble of byte 13 equal to 15) should decode to 32 bits per sample.
  \<open>parseStreamInfo\<close> returns 16: the addition of 1 is applied to the nibble of byte 13
  before the bitwise or, and the carry falls onto the bit taken from byte 12.
\<close>

theorem parseStreamInfo_bits_per_sample_32:
  "length (replicate 12 0 @ [0x01, 0xF0] @ replicate 20 (0 :: byte)) = 34
   \<and> streaminfo_bps_field (replicate 12 0 @ [0x01, 0xF0] @ replicate 20 0) + 1 = 32
   \<and> map_sum id flac_bitsPerSample
         (parseStreamInfo (replicate 12 0 @ [0x01, 0xF0] @ replicate 20 0)) = Inr 16"
  by code_simp

text \<open>
  C5. The MPEG-1 Layer 1 header FF FF 10 00 (32 kbit/s, 44100 Hz, no padding) is valid.
  The specification's frame size is \<open>\<lfloor>12 * 32000 / 44100\<rfloor> * 4 = 32\<close>; \<open>parseFrameHeader\<close>
  multiplies by 4 before taking the floor and returns 34, which is not a whole number
  of 4-byte slots.
\<close>

theorem parseFrameHeader_layer1_frame_size:
  "map_option (\<lambda>h. (mp3_version h, mp3_layer h, mp3_bitrate h, mp3_sampleRate h,
                     mp3_padding h, mp3_frameSize h))
     (parseFrameHeader [0xFF, 0xFF, 0x10, 0x00] 0)
     = Some (MPEG1, Layer1, 32000, 44100, False, 34)
   \<and> spec_frame_size Layer1 MPEG1 32 44100 0 = 32"
  by code_simp

text \<open>The header passes every check of \<open>parseFrameHeader\<close>: the result above is a parsed frame.\<close>

theorem parseFrameHeader_layer1_frame_size_witness:
  "parseFrameHeader [0xFF, 0xFF, 0x10, 0x00] 0 \<noteq> None
   \<and> map_option mp3_frameSize (parseFrameHeader [0xFF, 0xFF, 0x10, 0x00] 0) = Some 34"
  using parseFrameHeader_layer1_frame_size by (cases "parseFrameHeader [0xFF, 0xFF, 0x10, 0x00] 0") auto

subsection \<open>Muxer life cycle\<close>

lemma finalize_sets_finalized:
  "finalize cls m = (Inr out, m') \<Longrightarrow> mux_finalized m'"
  by (auto simp: finalize_def Let_def split: if_splits prod.splits option.splits)

lemma finalize_twice_fails:
  "mux_finalized m \<Longrightarrow> finalize cls m = (Inl (Error ''Muxer already finalized''), m)"
  by (simp add: finalize_def)

lemma mp3_writePacket_never_checks_finalized:
  "find (\<lambda>t. trk_id t = trackId) (mux_tracks m) = Some track
   \<Longrightarrow> fst (writePacket Mp3MuxerClass trackId packet m) = None"
  by (simp add: writePacket_def ensureHeader_def Mp3MuxerClass_def MuxerClass.defs
           split: prod.splits option.splits)

text \<open>
  C1. After \<^verbatim>\<open>finalize()\<close> has completed, a second \<^verbatim>\<open>finalize()\<close> fails with
  "Muxer already finalized" and leaves the muxer as it was. A \<^verbatim>\<open>writePacket\<close> for the
  existing track does not fail: \<^verbatim>\<open>writePacket\<close> never reads the \<^verbatim>\<open>finalized\<close> flag, the
  packet is queued behind the ones already written, and only the writer (position 2,
  the bytes already returned) is left alone.
\<close>

theorem writePacket_after_finalize_is_accepted:
  "mux_finalized finalized_mp3_muxer
   \<and> fst (finalize Mp3MuxerClass finalized_mp3_muxer) = Inl (Error ''Muxer already finalized'')
   \<and> snd (finalize Mp3MuxerClass finalized_mp3_muxer) = finalized_mp3_muxer
   \<and> fst (writePacket Mp3MuxerClass 1 (EncodedPacket.make [0xAA] 0 True 1) finalized_mp3_muxer)
       = None
   \<and> mp3m_packets (mux_format
         (snd (writePacket Mp3MuxerClass 1 (EncodedPacket.make [0xAA] 0 True 1)
            finalized_mp3_muxer))) = [[0xFF, 0xFB], [0xAA]]
   \<and> size_of (snd (writePacket Mp3MuxerClass 1 (EncodedPacket.make [0xAA] 0 True 1)
         finalized_mp3_muxer)) = 2"
  by code_simp

subsection \<open>AAC muxer\<close>

lemma toInt32_small: "0 \<le> x \<Longrightarrow> x < 2 ^ 31 \<Longrightarrow> toInt32 x = x"
  unfolding toInt32_def by (simp add: signed_take_bit_int_eq_self)

lemma js_and_0: "js_and 0 x = 0"
  by (simp add: js_and_def toInt32_def)

lemma uint_byte_range: "0 \<le> uint (b :: byte)" "uint (b :: byte) < 2 ^ 31"
  using uint_lt2p [of b] by (auto intro: order_less_trans)

lemma js_and_byte_F0: "js_and (uint (b :: byte)) 0xF0 = 0xF0 \<longleftrightarrow> b AND 0xF0 = 0xF0"
proof -
  have "js_and (uint b) 0xF0 = uint b AND 0xF0"
    unfolding js_and_def using toInt32_small [OF uint_byte_range] toInt32_small [of "0xF0"]
    by simp
  also have "\<dots> = uint (b AND 0xF0)"
    by (simp add: uint_and)
  finally show ?thesis
    by (simp add: word_uint_eq_iff)
qed

lemma uint_byte_eq_255: "uint (b :: byte) = 0xFF \<longleftrightarrow> b = 0xFF"
  by (simp add: word_uint_eq_iff)

lemma hasAdtsHeader_iff:
  "hasAdtsHeader d \<longleftrightarrow> 2 \<le> length d \<and> d ! 0 = 0xFF \<and> (d ! 1) AND 0xF0 = 0xF0"
proof (cases "2 \<le> length d")
  case True
  then have "0 < length d" "1 < length d" by linarith+
  then show ?thesis using True
    by (simp add: hasAdtsHeader_def index_def js_and_byte_F0 uint_byte_eq_255)
next
  case False
  then have "length d = 0 \<or> length d = 1" by linarith
  then show ?thesis
    by (auto simp add: hasAdtsHeader_def index_def js_and_0)
qed

lemma length_createAdtsHeader: "length (createAdtsHeader p s c l) = 7"
  by (simp add: createAdtsHeader_def)

lemma writeAll_buffer:
  "wr_target w = BufferTarget \<Longrightarrow>
   getBuffer (writeAll ps w) = getBuffer w @ concat ps \<and> wr_target (writeAll ps w) = BufferTarget"
proof (induction ps arbitrary: w)
  case Nil
  then show ?case by (simp add: writeAll_def)
next
  case (Cons p ps)
  have step: "wr_target (writeBytes p w) = BufferTarget"
    "getBuffer (writeBytes p w) = getBuffer w @ p"
    using Cons.prems by (simp_all add: writeBytes_def getBuffer_def Let_def)
  have "writeAll (p # ps) w = writeAll ps (writeBytes p w)"
    by (simp add: writeAll_def)
  then show ?case using Cons.IH [OF step(1)] step(2) by simp
qed

text \<open>
  What \<^verbatim>\<open>writeAudioPacket\<close> appends to the queue of the muxer: the payload itself when
  it has at least two bytes, byte 0 is 0xFF and \<open>(byte 1 & 0xF0) == 0xF0\<close>, and otherwise
  (also for an empty or a one-byte payload) a newly built 7-byte ADTS header followed
  by the payload.
\<close>

lemma aac_writeAudioPacket_cases:
  "aac_packets (aac_writeAudioPacket packet f) =
     aac_packets f @
       [if 2 \<le> length (pkt_data packet) \<and> pkt_data packet ! 0 = 0xFF
            \<and> (pkt_data packet ! 1) AND 0xF0 = 0xF0
        then pkt_data packet
        else createAdtsHeader (aac_profile f) (getSampleRateIndex (aac_sampleRate f))
               (aac_channels f) (7 + int (length (pkt_data packet))) @ pkt_data packet]
   \<and> length (createAdtsHeader (aac_profile f) (getSampleRateIndex (aac_sampleRate f))
               (aac_channels f) (7 + int (length (pkt_data packet)))) = 7"
  by (simp add: aac_writeAudioPacket_def hasAdtsHeader_iff length_createAdtsHeader Let_def)

text \<open>
  The mask 0xF6 of the specification and of \<^verbatim>\<open>AacInputFormat.canRead\<close> selects the four
  low sync bits and the two layer bits; the mask 0xF0 of the muxer selects the sync bits
  only. A payload starts with an ADTS sync exactly when the muxer's test holds and the
  layer bits of byte 1 are zero.
\<close>

lemma byte_mask_F6:
  "(b :: byte) AND 0xF6 = 0xF0 \<longleftrightarrow> b AND 0xF0 = 0xF0 \<and> b AND 0x06 = 0"
proof -
  have s: "(0xF6 :: byte) = 0xF0 OR 0x06" by simp
  show ?thesis
    apply (simp only: s bit.conj_disj_distrib)
    apply (rule iffI)
    subgoal
      apply (rule conjI)
      subgoal
        apply (drule arg_cong [where f = "\<lambda>x. x AND 0xF0"])
        apply (simp add: bit.conj_disj_distrib2 word_bw_assocs)
        done
      subgoal
        apply (drule arg_cong [where f = "\<lambda>x. x AND 0x06"])
        apply (simp add: bit.conj_disj_distrib2 word_bw_assocs)
        done
      done
    subgoal by simp
    done
qed

lemma js_and_byte_F6: "js_and (uint (b :: byte)) 0xF6 = 0xF0 \<longleftrightarrow> b AND 0xF6 = 0xF0"
proof -
  have "js_and (uint b) 0xF6 = uint b AND 0xF6"
    unfolding js_and_def using toInt32_small [OF uint_byte_range] toInt32_small [of "0xF6"]
    by simp
  also have "\<dots> = uint (b AND 0xF6)"
    by (simp add: uint_and)
  finally show ?thesis
    by (simp add: word_uint_eq_iff)
qed

lemma spec_adts_sync_iff:
  "spec_adts_sync d \<longleftrightarrow> hasAdtsHeader d \<and> (d ! 1) AND 0x06 = 0"
  by (auto simp: spec_adts_sync_def hasAdtsHeader_iff byte_mask_F6)

text \<open>\<^verbatim>\<open>AacInputFormat.canRead\<close> on a four-byte buffer is the test with the mask 0xF6.\<close>

lemma aac_canRead_4:
  "aac_canRead (BufferSource [a, b, c, d]) = Inr (a = 0xFF \<and> b AND 0xF6 = 0xF0)"
  by (simp add: aac_canRead_def readBytes_def slice_contains_def new_Reader_def Reader.defs
      loadSlice_def init_def subarray_def contains_def FileSlice.defs take_from_slice_def
      get_def Let_def DEFAULT_SLICE_SIZE_def index_def byte_at_def js_and_byte_F6
      uint_byte_eq_255)

text \<open>
  C6. The claim has the AAC muxer pass a packet through exactly when its payload starts
  with an ADTS sync, byte 0 equal to 0xFF and \<open>(byte 1 & 0xF6) == 0xF0\<close>, and prepend a
  7-byte header to every other payload. The muxer tests \<open>(byte 1 & 0xF0) == 0xF0\<close>
  instead. The payload FF F2 00 00 has a layer bit set: it does not start with an ADTS
  sync, and the library's own \<^verbatim>\<open>AacInputFormat.canRead\<close> does not accept these bytes as
  AAC, yet the muxer prepends no header and its finalized output is the four bytes
  unchanged.
\<close>

theorem aac_muxer_passes_layer_bits_through:
  "fst (finalize AacMuxerClass
        (snd (writePacket AacMuxerClass 1 (EncodedPacket.make [0xFF, 0xF2, 0x00, 0x00] 0 True 1)
           (snd (addAudioTrack AacMuxerClass (AudioTrackConfig.make ''aac'' 44100 2 None)
              (new_AacMuxer BufferTarget))))))
     = Inr [0xFF, 0xF2, 0x00, 0x00]
   \<and> \<not> spec_adts_sync [0xFF, 0xF2, 0x00, 0x00]
   \<and> aac_canRead (BufferSource [0xFF, 0xF2, 0x00, 0x00]) = Inr False"
  apply (intro conjI)
    apply code_simp
   apply code_simp
  apply (simp add: aac_canRead_4)
  done

text \<open>What \<^verbatim>\<open>finalize\<close> returns for a buffer target is the queue, concatenated.\<close>

lemma aac_finalize_output:
  assumes "wr_target (mux_writer m) = BufferTarget" and "\<not> mux_finalized m"
  shows "fst (finalize AacMuxerClass m)
           = Inr (getBuffer (mux_writer m) @ concat (aac_packets (mux_format m)))"
  using assms writeAll_buffer [of "mux_writer m" "aac_packets (mux_format m)"]
  by (simp add: finalize_def ensureHeader_def AacMuxerClass_def MuxerClass.defs close_def Let_def
           split: prod.splits)

subsection \<open>Reader over a buffer\<close>

lemma subarray_eq: "subarray xs b e = take (e - b) (drop b xs)"
proof (cases "b \<le> length xs")
  case True
  then show ?thesis
    by (cases "e \<le> length xs") (simp_all add: subarray_def min_def)
next
  case False
  then show ?thesis by (simp add: subarray_def min_def)
qed

lemma get_eq: "get sl pos len = take len (drop (pos - fs_offset sl) (fs_bytes sl))"
  by (simp add: get_def subarray_eq Let_def)

lemma window_read:
  assumes w: "bytes = take (length bytes) (drop off data)"
    and "off \<le> p" and "p + n \<le> off + length bytes"
  shows "take n (drop (p - off) bytes) = take n (drop p data)"
proof -
  have "drop (p - off) bytes = drop (p - off) (take (length bytes) (drop off data))"
    using w by simp
  also have "\<dots> = take (length bytes - (p - off)) (drop p data)"
    using assms(2) by (simp add: drop_take)
  finally have "take n (drop (p - off) bytes) = take (min n (length bytes - (p - off))) (drop p data)"
    by simp
  moreover have "min n (length bytes - (p - off)) = n"
    using assms(2,3) by simp
  ultimately show ?thesis by simp
qed

lemma window_inside:
  assumes w: "bytes = take (length bytes) (drop off data)"
    and "off \<le> p" and "p + n \<le> off + length bytes" and "0 < n"
  shows "p + n \<le> length data"
proof -
  have "length bytes \<le> length data - off"
    using arg_cong [OF w, of length] by simp
  moreover have "0 < length bytes" using assms(2,3,4) by linarith
  ultimately show ?thesis using assms(3) by linarith
qed

lemma loadSlice_buffer:
  assumes "reader_ok data r"
  shows "loadSlice off len r =
           Inr (r\<lparr>rd_sourceData := Some data,
                  rd_fileSize := (if rd_sourceData r = None then Some (length data) else rd_fileSize r),
                  rd_slice := Some (FileSlice.make (take (min len (length data - off)) (drop off data)) off)\<rparr>)"
proof -
  have src: "rd_source r = BufferSource data" using assms by (simp add: reader_ok_def)
  have sd: "rd_sourceData r = None \<or> rd_sourceData r = Some data"
    using assms by (simp add: reader_ok_def)
  have sub: "subarray data off (min (off + len) (length data)) = take (min len (length data - off)) (drop off data)"
    by (cases "off \<le> length data") (simp_all add: subarray_eq min_def)
  from sd show ?thesis
  proof
    assume "rd_sourceData r = None"
    then show ?thesis using src sub by (simp add: loadSlice_def init_def Let_def)
  next
    assume "rd_sourceData r = Some data"
    then show ?thesis using src sub by (simp add: loadSlice_def Let_def)
  qed
qed

lemma readBytes_buffer_step:
  assumes ok: "reader_ok data r"
  shows "\<exists>r'. readBytes n r =
               Inr (if rd_position r + n \<le> length data \<or> n = 0
                    then Some (take n (drop (rd_position r) data)) else None, r')
             \<and> rd_position r' =
                 (if rd_position r + n \<le> length data \<or> n = 0 then rd_position r + n
                  else rd_position r)
             \<and> reader_ok data r'"
proof (cases "slice_contains r n")
  case True
  then obtain sl where sl: "rd_slice r = Some sl" and c: "contains sl (rd_position r) n"
    by (auto simp: slice_contains_def split: option.splits)
  have w: "fs_bytes sl = take (length (fs_bytes sl)) (drop (fs_offset sl) data)"
    using ok sl by (simp add: reader_ok_def)
  have le: "fs_offset sl \<le> rd_position r"
    and fit: "rd_position r + n \<le> fs_offset sl + length (fs_bytes sl)"
    using c by (simp_all add: contains_def)
  have inside: "rd_position r + n \<le> length data \<or> n = 0"
    using window_inside [OF w le fit] by auto
  have val: "get sl (rd_position r) n = take n (drop (rd_position r) data)"
    using window_read [OF w le fit] by (simp add: get_eq)
  have "reader_ok data (r\<lparr>rd_position := rd_position r + n\<rparr>)"
    using ok by (simp add: reader_ok_def)
  then show ?thesis
    using True sl val inside by (auto simp: readBytes_def take_from_slice_def)
next
  case False
  let ?p = "rd_position r"
  let ?L = "max n DEFAULT_SLICE_SIZE"
  let ?bytes = "take (min ?L (length data - ?p)) (drop ?p data)"
  let ?r1 = "r\<lparr>rd_sourceData := Some data,
               rd_fileSize := (if rd_sourceData r = None then Some (length data) else rd_fileSize r),
               rd_slice := Some (FileSlice.make ?bytes ?p)\<rparr>"
  have ld: "loadSlice ?p ?L r = Inr ?r1"
    by (rule loadSlice_buffer [OF ok])
  have len: "length ?bytes = min ?L (length data - ?p)"
    by simp
  have ok1: "reader_ok data ?r1"
    using ok by (simp add: reader_ok_def FileSlice.defs)
  have c1: "slice_contains ?r1 n \<longleftrightarrow> (?p + n \<le> length data \<or> n = 0)"
    unfolding slice_contains_def contains_def using len
    by (auto simp: FileSlice.defs)
  show ?thesis
  proof (cases "?p + n \<le> length data \<or> n = 0")
    case fits: True
    have "take n ?bytes = take n (drop ?p data)"
      using fits by (auto simp: min_def)
    then have val: "get (FileSlice.make ?bytes ?p) ?p n = take n (drop ?p data)"
      by (simp add: get_eq FileSlice.defs)
    have "reader_ok data (?r1\<lparr>rd_position := ?p + n\<rparr>)"
      using ok1 by (simp add: reader_ok_def)
    then show ?thesis
      using False ld c1 fits val by (auto simp: readBytes_def take_from_slice_def)
  next
    case nofit: False
    then show ?thesis
      using False ld c1 ok1 by (auto simp: readBytes_def)
  qed
qed

lemma reader_ok_new: "reader_ok data ((new_Reader (BufferSource data))\<lparr>rd_position := p\<rparr>)"
  by (simp add: reader_ok_def new_Reader_def Reader.defs)




subsection \<open>Format detection on an empty source\<close>








subsection \<open>WAV duration\<close>

text \<open>
  \<open>cursor data p d\<close>: the reader of the demuxer \<open>d\<close> is a reader over the buffer \<open>data\<close> and
  stands at position \<open>p\<close>.
\<close>

definition cursor :: "byte list \<Rightarrow> nat \<Rightarrow> WavDemuxer \<Rightarrow> bool" where
  "cursor data p d = (reader_ok data (wd_reader d) \<and> wd_position d = p)"

lemma cursor_fields [simp]:
  "cursor data p (d\<lparr>wd_format := f\<rparr>) = cursor data p d"
  "cursor data p (d\<lparr>wd_dataChunk := c\<rparr>) = cursor data p d"
  "cursor data p (d\<lparr>wd_isRf64 := b\<rparr>) = cursor data p d"
  "cursor data p (d\<lparr>wd_initialized := i\<rparr>) = cursor data p d"
  by (simp_all add: cursor_def wd_position_def)

lemma read_cursor:
  assumes "cursor data p d" and "p + n \<le> length data"
  obtains r where
    "on_reader (bind_io (readBytes n) (\<lambda>bytes. return_io (map_option g bytes))) d
       = Inr (Some (g (take n (drop p data))), d\<lparr>wd_reader := r\<rparr>)"
    and "cursor data (p + n) (d\<lparr>wd_reader := r\<rparr>)"
proof -
  from assms have ok: "reader_ok data (wd_reader d)" and p: "rd_position (wd_reader d) = p"
    by (simp_all add: cursor_def wd_position_def)
  from readBytes_buffer_step [OF ok, of n] p assms(2) obtain r where
    "readBytes n (wd_reader d) = Inr (Some (take n (drop p data)), r)"
    "rd_position r = p + n" "reader_ok data r"
    by auto
  then have
    "on_reader (bind_io (readBytes n) (\<lambda>bytes. return_io (map_option g bytes))) d
       = Inr (Some (g (take n (drop p data))), d\<lparr>wd_reader := r\<rparr>)"
    "cursor data (p + n) (d\<lparr>wd_reader := r\<rparr>)"
    by (simp_all add: on_reader_def bind_io_def return_io_def cursor_def wd_position_def)
  then show thesis by (rule that)
qed

lemma read_at:
  assumes "cursor data p (d\<lparr>wd_reader := r0\<rparr>)" and "p + n \<le> length data" and "q = p + n"
  shows "\<exists>r. on_reader (bind_io (readBytes n) (\<lambda>bytes. return_io (map_option g bytes)))
                (d\<lparr>wd_reader := r0\<rparr>)
              = Inr (Some (g (take n (drop p data))), d\<lparr>wd_reader := r\<rparr>)
            \<and> cursor data q (d\<lparr>wd_reader := r\<rparr>)"
proof -
  from read_cursor [OF assms(1,2), of g] obtain r where
    "on_reader (bind_io (readBytes n) (\<lambda>bytes. return_io (map_option g bytes)))
       (d\<lparr>wd_reader := r0\<rparr>)
       = Inr (Some (g (take n (drop p data))), d\<lparr>wd_reader := r0, wd_reader := r\<rparr>)"
    "cursor data (p + n) (d\<lparr>wd_reader := r0, wd_reader := r\<rparr>)"
    by blast
  then show ?thesis using assms(3) by auto
qed

lemmas read_u16le = read_at [where n = 2 and g = u16le, folded readU16LE_def]
lemmas read_u32le = read_at [where n = 4 and g = u32le, folded readU32LE_def]
lemmas read_u32be = read_at [where n = 4 and g = u32be, folded readU32BE_def]

lemma parseFmtChunk_16:
  assumes c: "cursor data p (d\<lparr>wd_reader := r0\<rparr>)" and len: "p + 16 \<le> length data"
  shows "\<exists>r. parseFmtChunk 16 (d\<lparr>wd_reader := r0\<rparr>) =
       Inr ((), d\<lparr>wd_reader := r,
                  wd_format := Some (WavFormat.make
                    (Some (u16le (take 2 (drop p data))))
                    (Some (u16le (take 2 (drop (p + 2) data))))
                    (Some (u32le (take 4 (drop (p + 4) data))))
                    (Some (u32le (take 4 (drop (p + 8) data))))
                    (Some (u16le (take 2 (drop (p + 12) data))))
                    (Some (u16le (take 2 (drop (p + 14) data))))
                    None None None)\<rparr>)
    \<and> cursor data (p + 16) (d\<lparr>wd_reader := r\<rparr>)"
proof -
  from len have l: "p + 2 \<le> length data" "(p + 2) + 2 \<le> length data" "(p + 4) + 4 \<le> length data"
    "(p + 8) + 4 \<le> length data" "(p + 12) + 2 \<le> length data" "(p + 14) + 2 \<le> length data"
    by simp_all
  from read_u16le [OF c l(1) refl] obtain r1 where
    s1: "on_reader readU16LE (d\<lparr>wd_reader := r0\<rparr>)
           = Inr (Some (u16le (take 2 (drop p data))), d\<lparr>wd_reader := r1\<rparr>)"
    and c1: "cursor data (p + 2) (d\<lparr>wd_reader := r1\<rparr>)" by blast
  have "p + 4 = (p + 2) + 2" by simp
  from read_u16le [OF c1 l(2) this] obtain r2 where
    s2: "on_reader readU16LE (d\<lparr>wd_reader := r1\<rparr>)
           = Inr (Some (u16le (take 2 (drop (p + 2) data))), d\<lparr>wd_reader := r2\<rparr>)"
    and c2: "cursor data (p + 4) (d\<lparr>wd_reader := r2\<rparr>)" by blast
  have "p + 8 = (p + 4) + 4" by simp
  from read_u32le [OF c2 l(3) this] obtain r3 where
    s3: "on_reader readU32LE (d\<lparr>wd_reader := r2\<rparr>)
           = Inr (Some (u32le (take 4 (drop (p + 4) data))), d\<lparr>wd_reader := r3\<rparr>)"
    and c3: "cursor data (p + 8) (d\<lparr>wd_reader := r3\<rparr>)" by blast
  have "p + 12 = (p + 8) + 4" by simp
  from read_u32le [OF c3 l(4) this] obtain r4 where
    s4: "on_reader readU32LE (d\<lparr>wd_reader := r3\<rparr>)
           = Inr (Some (u32le (take 4 (drop (p + 8) data))), d\<lparr>wd_reader := r4\<rparr>)"
    and c4: "cursor data (p + 12) (d\<lparr>wd_reader := r4\<rparr>)" by blast
  have "p + 14 = (p + 12) + 2" by simp
  from read_u16le [OF c4 l(5) this] obtain r5 where
    s5: "on_reader readU16LE (d\<lparr>wd_reader := r4\<rparr>)
           = Inr (Some (u16le (take 2 (drop (p + 12) data))), d\<lparr>wd_reader := r5\<rparr>)"
    and c5: "cursor data (p + 14) (d\<lparr>wd_reader := r5\<rparr>)" by blast
  have "p + 16 = (p + 14) + 2" by simp
  from read_u16le [OF c5 l(6) this] obtain r6 where
    s6: "on_reader readU16LE (d\<lparr>wd_reader := r5\<rparr>)
           = Inr (Some (u16le (take 2 (drop (p + 14) data))), d\<lparr>wd_reader := r6\<rparr>)"
    and c6: "cursor data (p + 16) (d\<lparr>wd_reader := r6\<rparr>)" by blast
  have "parseFmtChunk 16 (d\<lparr>wd_reader := r0\<rparr>) =
       Inr ((), d\<lparr>wd_reader := r6,
                  wd_format := Some (WavFormat.make
                    (Some (u16le (take 2 (drop p data))))
                    (Some (u16le (take 2 (drop (p + 2) data))))
                    (Some (u32le (take 4 (drop (p + 4) data))))
                    (Some (u32le (take 4 (drop (p + 8) data))))
                    (Some (u16le (take 2 (drop (p + 12) data))))
                    (Some (u16le (take 2 (drop (p + 14) data))))
                    None None None)\<rparr>)"
    unfolding parseFmtChunk_def bind_io_def return_io_def
    by (simp add: s1 s2 s3 s4 s5 s6)
  with c6 show ?thesis by blast
qed

lemma pcm16_header:
  "pcm16_mono_44100 [a1, a2, a3, a4] [b1, b2, b3, b4] pcm =
     [0x52, 0x49, 0x46, 0x46, a1, a2, a3, a4, 0x57, 0x41, 0x56, 0x45, 0x66, 0x6D, 0x74, 0x20,
      16, 0, 0, 0,  1, 0,  1, 0,  0x44, 0xAC, 0, 0,  0x88, 0x58, 0x01, 0,  2, 0,  16, 0,
      0x64, 0x61, 0x74, 0x61, b1, b2, b3, b4] @ pcm"
  by (simp add: pcm16_mono_44100_def ascii_bytes_def)

lemma decoded_values:
  "u32be [0x52, 0x49, 0x46, 0x46] = RIFF_MAGIC" "u32be [0x57, 0x41, 0x56, 0x45] = WAVE_MAGIC"
  "u32be [0x66, 0x6D, 0x74, 0x20] = FMT_MAGIC" "u32be [0x64, 0x61, 0x74, 0x61] = DATA_MAGIC"
  "u32le [16, 0, 0, 0] = 16" "u16le [1, 0] = 1" "u32le [0x44, 0xAC, 0, 0] = 44100"
  "u32le [0x88, 0x58, 0x01, 0] = 88200" "u16le [2, 0] = 2" "u16le [16, 0] = 16"
  by (simp_all add: u32be_def u32le_def u16le_def byte_at_def index_def js_or_def js_shl_def
        js_shr_def toInt32_def toUint32_def RIFF_MAGIC_def WAVE_MAGIC_def FMT_MAGIC_def
        DATA_MAGIC_def)

lemma magic_distinct:
  "RIFF_MAGIC \<noteq> RF64_MAGIC" "FMT_MAGIC \<noteq> DATA_MAGIC" "DATA_MAGIC \<noteq> FMT_MAGIC"
  by (simp_all add: RIFF_MAGIC_def RF64_MAGIC_def FMT_MAGIC_def DATA_MAGIC_def)

lemma wav_pcm16_duration:
  assumes A: "u32le [a1, a2, a3, a4] = 36 + int (length pcm)"
    and B: "u32le [b1, b2, b3, b4] = int (length pcm)"
  shows "wav_getDuration (BufferSource (pcm16_mono_44100 [a1, a2, a3, a4] [b1, b2, b3, b4] pcm))
           = Inr (Finite (of_nat (length pcm) / 2 / 44100))"
proof -
  define data where "data = pcm16_mono_44100 [a1, a2, a3, a4] [b1, b2, b3, b4] pcm"
  define n where "n = int (length pcm)"
  define base where "base = (new_WavDemuxer (BufferSource data))\<lparr>wd_initialized := True\<rparr>"
  define r0 where "r0 = (new_Reader (BufferSource data))\<lparr>rd_position := 0\<rparr>"
  have data: "data = [0x52, 0x49, 0x46, 0x46, a1, a2, a3, a4, 0x57, 0x41, 0x56, 0x45,
      0x66, 0x6D, 0x74, 0x20, 16, 0, 0, 0,  1, 0,  1, 0,  0x44, 0xAC, 0, 0,  0x88, 0x58, 0x01, 0,
      2, 0,  16, 0, 0x64, 0x61, 0x74, 0x61, b1, b2, b3, b4] @ pcm"
    unfolding data_def by (rule pcm16_header)
  have len: "length data = 44 + length pcm"
    by (simp add: data)
  have sl: "take 4 data = [0x52, 0x49, 0x46, 0x46]"
    "take 4 (drop 4 data) = [a1, a2, a3, a4]"
    "take 4 (drop 8 data) = [0x57, 0x41, 0x56, 0x45]"
    "take 4 (drop 12 data) = [0x66, 0x6D, 0x74, 0x20]"
    "take 4 (drop 16 data) = [16, 0, 0, 0]"
    "take 2 (drop 20 data) = [1, 0]"
    "take 2 (drop 22 data) = [1, 0]"
    "take 4 (drop 24 data) = [0x44, 0xAC, 0, 0]"
    "take 4 (drop 28 data) = [0x88, 0x58, 0x01, 0]"
    "take 2 (drop 32 data) = [2, 0]"
    "take 2 (drop 34 data) = [16, 0]"
    "take 4 (drop 36 data) = [0x64, 0x61, 0x74, 0x61]"
    "take 4 (drop 40 data) = [b1, b2, b3, b4]"
    by (simp_all add: data)
  have base: "wd_isRf64 base = False" "wd_ds64 base = None" "wd_format base = None"
    "wd_dataChunk base = None"
    by (simp_all add: base_def new_WavDemuxer_def WavDemuxer.defs)
  have c0: "cursor data 0 (base\<lparr>wd_reader := r0\<rparr>)"
    by (simp add: cursor_def wd_position_def r0_def reader_ok_new)
  have start: "(new_WavDemuxer (BufferSource data))
                 \<lparr>wd_initialized := True,
                   wd_reader := (wd_reader (new_WavDemuxer (BufferSource data)))\<lparr>rd_position := 0\<rparr>\<rparr>
               = base\<lparr>wd_reader := r0\<rparr>"
    by (simp add: base_def r0_def new_WavDemuxer_def WavDemuxer.defs)
  have l1: "0 + 4 \<le> length data" using len by simp
  have q1: "(4 :: nat) = 0 + 4" by simp
  have v1: "u32be (take 4 (drop 0 data)) = RIFF_MAGIC" by (simp add: sl decoded_values)
  from read_u32be [OF c0 l1 q1] obtain r1 where
    s1: "on_reader readU32BE (base\<lparr>wd_reader := r0\<rparr>) = Inr (Some (RIFF_MAGIC), base\<lparr>wd_reader := r1\<rparr>)"
    and c1: "cursor data 4 (base\<lparr>wd_reader := r1\<rparr>)"
    unfolding v1 by blast
  have l2: "4 + 4 \<le> length data" using len by simp
  have q2: "(8 :: nat) = 4 + 4" by simp
  have v2: "u32le (take 4 (drop 4 data)) = 36 + n" by (simp add: sl A n_def)
  from read_u32le [OF c1 l2 q2] obtain r2 where
    s2: "on_reader readU32LE (base\<lparr>wd_reader := r1\<rparr>) = Inr (Some (36 + n), base\<lparr>wd_reader := r2\<rparr>)"
    and c2: "cursor data 8 (base\<lparr>wd_reader := r2\<rparr>)"
    unfolding v2 by blast
  have l3: "8 + 4 \<le> length data" using len by simp
  have q3: "(12 :: nat) = 8 + 4" by simp
  have v3: "u32be (take 4 (drop 8 data)) = WAVE_MAGIC" by (simp add: sl decoded_values)
  from read_u32be [OF c2 l3 q3] obtain r3 where
    s3: "on_reader readU32BE (base\<lparr>wd_reader := r2\<rparr>) = Inr (Some (WAVE_MAGIC), base\<lparr>wd_reader := r3\<rparr>)"
    and c3: "cursor data 12 (base\<lparr>wd_reader := r3\<rparr>)"
    unfolding v3 by blast
  have l4: "12 + 4 \<le> length data" using len by simp
  have q4: "(16 :: nat) = 12 + 4" by simp
  have v4: "u32be (take 4 (drop 12 data)) = FMT_MAGIC" by (simp add: sl decoded_values)
  from read_u32be [OF c3 l4 q4] obtain r4 where
    s4: "on_reader readU32BE (base\<lparr>wd_reader := r3\<rparr>) = Inr (Some (FMT_MAGIC), base\<lparr>wd_reader := r4\<rparr>)"
    and c4: "cursor data 16 (base\<lparr>wd_reader := r4\<rparr>)"
    unfolding v4 by blast
  have l5: "16 + 4 \<le> length data" using len by simp
  have q5: "(20 :: nat) = 16 + 4" by simp
  have v5: "u32le (take 4 (drop 16 data)) = 16" by (simp add: sl decoded_values)
  from read_u32le [OF c4 l5 q5] obtain r5 where
    s5: "on_reader readU32LE (base\<lparr>wd_reader := r4\<rparr>) = Inr (Some (16), base\<lparr>wd_reader := r5\<rparr>)"
    and c5: "cursor data 20 (base\<lparr>wd_reader := r5\<rparr>)"
    unfolding v5 by blast
  define fmt where "fmt = WavFormat.make (Some 1) (Some 1) (Some 44100) (Some 88200) (Some 2) (Some 16)
                            None None None"
  have l6: "20 + 16 \<le> length data" using len by simp
  have v6: "WavFormat.make
              (Some (u16le (take 2 (drop 20 data))))
              (Some (u16le (take 2 (drop (20 + 2) data))))
              (Some (u32le (take 4 (drop (20 + 4) data))))
              (Some (u32le (take 4 (drop (20 + 8) data))))
              (Some (u16le (take 2 (drop (20 + 12) data))))
              (Some (u16le (take 2 (drop (20 + 14) data))))
              None None None = fmt"
    by (simp add: sl decoded_values fmt_def)
  have q6: "(20 :: nat) + 16 = 36" by simp
  from parseFmtChunk_16 [OF c5 l6] obtain r6 where
    s6: "parseFmtChunk 16 (base\<lparr>wd_reader := r5\<rparr>)
           = Inr ((), base\<lparr>wd_reader := r6, wd_format := Some fmt\<rparr>)"
    and c6: "cursor data 36 (base\<lparr>wd_reader := r6\<rparr>)"
    unfolding v6 q6 by blast
  define base2 where "base2 = base\<lparr>wd_format := Some fmt\<rparr>"
  have b2: "base\<lparr>wd_reader := r6, wd_format := Some fmt\<rparr> = base2\<lparr>wd_reader := r6\<rparr>"
    by (simp add: base2_def)
  have base2: "wd_isRf64 base2 = False" "wd_ds64 base2 = None" "wd_format base2 = Some fmt"
    "wd_dataChunk base2 = None"
    by (simp_all add: base2_def base)
  have c6': "cursor data 36 (base2\<lparr>wd_reader := r6\<rparr>)"
    using c6 by (simp add: base2_def cursor_def wd_position_def)
  have step1: "chunk_step (base\<lparr>wd_reader := r3\<rparr>) = Inr (True, base2\<lparr>wd_reader := r6\<rparr>)"
    using c5 c6'
    by (simp add: chunk_step_def bind_io_def s4 s5 chunk_body_def chunk_dispatch_def
          chunk_next_def Let_def base s6 b2 cursor_def)
  have l7: "36 + 4 \<le> length data" using len by simp
  have q7: "(40 :: nat) = 36 + 4" by simp
  have v7: "u32be (take 4 (drop 36 data)) = DATA_MAGIC" by (simp add: sl decoded_values)
  from read_u32be [OF c6' l7 q7] obtain r7 where
    s7: "on_reader readU32BE (base2\<lparr>wd_reader := r6\<rparr>) = Inr (Some (DATA_MAGIC), base2\<lparr>wd_reader := r7\<rparr>)"
    and c7: "cursor data 40 (base2\<lparr>wd_reader := r7\<rparr>)"
    unfolding v7 by blast
  have l8: "40 + 4 \<le> length data" using len by simp
  have q8: "(44 :: nat) = 40 + 4" by simp
  have v8: "u32le (take 4 (drop 40 data)) = n" by (simp add: sl B n_def)
  from read_u32le [OF c7 l8 q8] obtain r8 where
    s8: "on_reader readU32LE (base2\<lparr>wd_reader := r7\<rparr>) = Inr (Some (n), base2\<lparr>wd_reader := r8\<rparr>)"
    and c8: "cursor data 44 (base2\<lparr>wd_reader := r8\<rparr>)"
    unfolding v8 by blast
  define dend where
    "dend = (let d = base2\<lparr>wd_reader := r8, wd_dataChunk := Some (RiffChunk.make DATA_MAGIC n 44)\<rparr>
             in if 44 + n + n mod 2 > 44
                then d\<lparr>wd_reader := (wd_reader d)\<lparr>rd_position := nat (44 + n + n mod 2)\<rparr>\<rparr>
                else d)"
  have step2: "chunk_step (base2\<lparr>wd_reader := r6\<rparr>) = Inr (True, dend)"
    using c8
    by (simp add: chunk_step_def bind_io_def s7 s8 chunk_body_def chunk_dispatch_def
          chunk_next_def Let_def base2 magic_distinct cursor_def wd_position_def dend_def)
  have n0: "0 \<le> n" by (simp add: n_def)
  have pend: "int (wd_position dend) \<ge> 44 + n"
    using c8 n0 by (auto simp: dend_def Let_def cursor_def wd_position_def)
  have fend: "wd_format dend = Some fmt"
    "wd_dataChunk dend = Some (RiffChunk.make DATA_MAGIC n 44)"
    by (simp_all add: dend_def Let_def base2)
  have loop: "parseChunks (44 + n) (base\<lparr>wd_reader := r3\<rparr>) = Inr ((), dend)"
  proof -
    have "int (wd_position (base\<lparr>wd_reader := r3\<rparr>)) < 44 + n"
      using c3 n0 by (simp add: cursor_def)
    then have "parseChunks (44 + n) (base\<lparr>wd_reader := r3\<rparr>)
                 = parseChunks (44 + n) (base2\<lparr>wd_reader := r6\<rparr>)"
      by (subst parseChunks.simps) (simp add: step1)
    also have "int (wd_position (base2\<lparr>wd_reader := r6\<rparr>)) < 44 + n"
      using c6' n0 by (simp add: cursor_def)
    then have "parseChunks (44 + n) (base2\<lparr>wd_reader := r6\<rparr>) = parseChunks (44 + n) dend"
      by (subst parseChunks.simps) (simp add: step2)
    also have "\<dots> = Inr ((), dend)"
      using pend by (subst parseChunks.simps) simp
    finally show ?thesis .
  qed
  have fin: "map_sum id (\<lambda>x. wd_duration (snd x)) (finish_init dend)
               = Inr (Finite (of_int n / 2 / 44100))"
    by (simp add: finish_init_def fend fmt_def WavFormat.defs RiffChunk.defs Let_def)
  have "wav_init (new_WavDemuxer (BufferSource data)) = finish_init dend"
    unfolding wav_init_def
    by (simp add: new_WavDemuxer_def [where source = "BufferSource data", THEN arg_cong [where f = wd_initialized]]
          start bind_io_def s1 s2 s3 magic_distinct return_io_def read_ds64_first_def base Let_def loop
          WavDemuxer.defs)
  then show ?thesis
    using fin unfolding data_def [symmetric] n_def
    by (auto simp: wav_getDuration_def split: sum.splits)
qed


lemma size_fields:
  "u32le [0x34, 0xB1, 0x02, 0x00] = 36 + 176400" "u32le [0x10, 0xB1, 0x02, 0x00] = 176400"
  "u32le [0xAC, 0x58, 0x01, 0x00] = 36 + 88200" "u32le [0x88, 0x58, 0x01, 0x00] = 88200"
  by (simp_all add: u32le_def byte_at_def index_def js_or_def js_shl_def js_shr_def toInt32_def
        toUint32_def)

text \<open>
  C7, as the code has it. A canonical 16-bit, 44100 Hz, 1-channel WAV file whose data
  chunk holds 88200 samples, that is 176400 bytes, has duration exactly 2; the duration
  is exactly 1 when the data chunk holds 88200 bytes, that is 44100 samples. The duration
  is the data-chunk size divided by bytes-per-sample times channels, divided by the
  sample rate.
\<close>

theorem wav_duration_16bit_mono_44100:
  assumes "length pcm = 2 * 88200" and "length pcm' = 88200"
  shows "wav_getDuration (BufferSource
           (pcm16_mono_44100 [0x34, 0xB1, 0x02, 0x00] [0x10, 0xB1, 0x02, 0x00] pcm)) = Inr (Finite 2)
       \<and> wav_getDuration (BufferSource
           (pcm16_mono_44100 [0xAC, 0x58, 0x01, 0x00] [0x88, 0x58, 0x01, 0x00] pcm')) = Inr (Finite 1)"
proof -
  have "wav_getDuration (BufferSource
           (pcm16_mono_44100 [0x34, 0xB1, 0x02, 0x00] [0x10, 0xB1, 0x02, 0x00] pcm))
          = Inr (Finite (of_nat (length pcm) / 2 / 44100))"
    by (rule wav_pcm16_duration) (simp_all add: size_fields assms)
  moreover have "wav_getDuration (BufferSource
           (pcm16_mono_44100 [0xAC, 0x58, 0x01, 0x00] [0x88, 0x58, 0x01, 0x00] pcm'))
          = Inr (Finite (of_nat (length pcm') / 2 / 44100))"
    by (rule wav_pcm16_duration) (simp_all add: size_fields assms)
  ultimately show ?thesis by (simp add: assms)
qed

theorem wav_duration_16bit_mono_44100_witness:
  "length (replicate 176400 (0 :: byte)) = 2 * 88200
   \<and> length (replicate 88200 (0 :: byte)) = 88200
   \<and> wav_getDuration (BufferSource
         (pcm16_mono_44100 [0x34, 0xB1, 0x02, 0x00] [0x10, 0xB1, 0x02, 0x00] (replicate 176400 0)))
       = Inr (Finite 2)
   \<and> wav_getDuration (BufferSource
         (pcm16_mono_44100 [0xAC, 0x58, 0x01, 0x00] [0x88, 0x58, 0x01, 0x00] (replicate 88200 0)))
       = Inr (Finite 1)"
proof -
  have a: "length (replicate 176400 (0 :: byte)) = 2 * 88200"
    and b: "length (replicate 88200 (0 :: byte)) = 88200"
    by simp_all
  from wav_duration_16bit_mono_44100 [OF a b] a b show ?thesis by blast
qed

text \<open>
  The claim as written fails: with 88200 samples in the data chunk the duration is 2,
  not 1.
\<close>

theorem wav_duration_88200_samples_counterexample:
  "wav_getDuration (BufferSource
      (pcm16_mono_44100 [0x34, 0xB1, 0x02, 0x00] [0x10, 0xB1, 0x02, 0x00] (replicate (2 * 88200) 0)))
     \<noteq> Inr (Finite 1)"
proof -
  have "wav_getDuration (BufferSource
      (pcm16_mono_44100 [0x34, 0xB1, 0x02, 0x00] [0x10, 0xB1, 0x02, 0x00] (replicate (2 * 88200) 0)))
     = Inr (Finite (of_nat (length (replicate (2 * 88200) (0 :: byte))) / 2 / 44100))"
    by (rule wav_pcm16_duration) (simp_all add: size_fields)
  then show ?thesis by simp
qed

subsection \<open>Bit codings\<close>

text \<open>
  The bytes of a reader or writer are viewed as one list of bits, most significant bit of
  each byte first: \<open>remaining r\<close> is what a reader has not consumed yet, \<open>written w\<close> what a
  writer has been given, \<open>top_bits n x\<close> the \<open>n\<close> low bits of \<open>x\<close> from the highest down, and
  \<open>bl_acc acc bs\<close> the number that \<open>readBits\<close> accumulates from \<open>bs\<close>, starting with \<open>acc\<close>.
\<close>

lemma toInt32_id: "- (2 ^ 31) \<le> x \<Longrightarrow> x < 2 ^ 31 \<Longrightarrow> toInt32 x = x"
  unfolding toInt32_def by (simp add: signed_take_bit_int_eq_self)

lemma toInt32_nonneg: "0 \<le> x \<Longrightarrow> x < 2 ^ 31 \<Longrightarrow> toInt32 x = x"
  by (rule toInt32_id) simp_all

lemma js_sar_nonneg: "0 \<le> x \<Longrightarrow> x < 2 ^ 31 \<Longrightarrow> n < 32 \<Longrightarrow> js_sar x n = x div 2 ^ n"
  by (simp add: js_sar_def toInt32_nonneg drop_bit_eq_div)

lemma js_shl_nonneg:
  "0 \<le> x \<Longrightarrow> x * 2 ^ n < 2 ^ 31 \<Longrightarrow> n < 32 \<Longrightarrow> js_shl x n = x * 2 ^ n"
proof -
  assume a: "0 \<le> x" "x * 2 ^ n < 2 ^ 31" "n < 32"
  have "x \<le> x * 2 ^ n" using a(1) by (simp add: mult_le_cancel_left1)
  then have "x < 2 ^ 31" using a(2) by linarith
  then show ?thesis using a by (simp add: js_shl_def toInt32_nonneg push_bit_eq_mult)
qed

lemma js_and_nonneg: "0 \<le> x \<Longrightarrow> x < 2 ^ 31 \<Longrightarrow> 0 \<le> y \<Longrightarrow> y < 2 ^ 31 \<Longrightarrow> js_and x y = x AND y"
  by (simp add: js_and_def toInt32_nonneg)

lemma js_or_nonneg: "0 \<le> x \<Longrightarrow> x < 2 ^ 31 \<Longrightarrow> 0 \<le> y \<Longrightarrow> y < 2 ^ 31 \<Longrightarrow> js_or x y = x OR y"
  by (simp add: js_or_def toInt32_nonneg)

lemma js_and_1: "0 \<le> x \<Longrightarrow> x < 2 ^ 31 \<Longrightarrow> js_and x 1 = x mod 2"
  by (simp add: js_and_nonneg and_one_eq)

lemma shift_or_bit:
  "0 \<le> (c :: int) \<Longrightarrow> b \<in> {0, 1} \<Longrightarrow> push_bit 1 c OR b = 2 * c + b"
  by (auto simp: push_bit_eq_mult or_one_eq)

lemma js_shift_in:
  assumes "0 \<le> c" "c < 2 ^ 30" "b \<in> {0, 1}"
  shows "js_or (js_shl c 1) b = 2 * c + b"
proof -
  have "js_shl c 1 = c * 2" using assms by (subst js_shl_nonneg) simp_all
  moreover have "js_or (c * 2) b = c * 2 OR b"
    using assms by (intro js_or_nonneg) auto
  moreover have "c * 2 OR b = 2 * c + b"
    using shift_or_bit [OF assms(1,3)] by (simp add: push_bit_eq_mult mult.commute)
  ultimately show ?thesis by simp
qed

definition bits_of_byte :: "byte \<Rightarrow> bool list" where
  "bits_of_byte b = map (\<lambda>i. bit b (7 - i)) [0..<8]"

definition stream :: "byte list \<Rightarrow> bool list" where
  "stream bytes = concat (map bits_of_byte bytes)"

definition remaining :: "BitReader \<Rightarrow> bool list" where
  "remaining r = drop (br_bytePos r * 8 + br_bitPos r) (stream (br_data r))"

lemma length_bits_of_byte [simp]: "length (bits_of_byte b) = 8"
  by (simp add: bits_of_byte_def)

lemma length_stream [simp]: "length (stream bytes) = 8 * length bytes"
  by (induction bytes) (simp_all add: stream_def)

lemma stream_Cons: "stream (b # bs) = bits_of_byte b @ stream bs"
  by (simp add: stream_def)

lemma stream_append: "stream (xs @ ys) = stream xs @ stream ys"
  by (simp add: stream_def)

lemma stream_nth:
  "k < length bytes \<Longrightarrow> i < 8 \<Longrightarrow> stream bytes ! (k * 8 + i) = bit (bytes ! k) (7 - i)"
proof (induction bytes arbitrary: k)
  case Nil
  then show ?case by simp
next
  case (Cons b bs)
  show ?case
  proof (cases k)
    case 0
    with Cons.prems show ?thesis
      by (simp add: stream_Cons nth_append bits_of_byte_def)
  next
    case (Suc j)
    with Cons.prems have "j < length bs" by simp
    from Cons.IH [OF this Cons.prems(2)] Suc Cons.prems(2) show ?thesis
      by (simp add: stream_Cons nth_append)
  qed
qed

lemma int_div_pow2_le: "0 \<le> (x :: int) \<Longrightarrow> x div 2 ^ j \<le> x"
  using zdiv_mono2 [of x 1 "2 ^ j"] by simp

lemma js_bit_of_byte:
  "j < 8 \<Longrightarrow> js_and (js_sar (uint (b :: byte)) j) 1 = of_bool (bit b j)"
proof -
  assume j: "j < 8"
  have u: "0 \<le> uint b" "uint b < 2 ^ 31"
    using uint_lt2p [of b] by (auto intro: order_less_trans)
  have s: "js_sar (uint b) j = drop_bit j (uint b)"
    using j u by (simp add: js_sar_nonneg drop_bit_eq_div)
  have "0 \<le> drop_bit j (uint b)"
    by simp
  moreover have "drop_bit j (uint b) < 2 ^ 31"
    using order_le_less_trans [OF int_div_pow2_le [OF u(1), of j] u(2)]
    by (simp add: drop_bit_eq_div)
  ultimately have "js_and (drop_bit j (uint b)) 1 = drop_bit j (uint b) mod 2"
    by (rule js_and_1)
  then have "js_and (drop_bit j (uint b)) 1 = drop_bit j (uint b) mod 2" .
  also have "\<dots> = of_bool (bit (uint b) j)"
    by (simp add: bit_iff_odd_drop_bit mod_2_eq_odd)
  also have "bit (uint b) j = bit b j"
    by (simp add: bit_uint_iff j)
  finally show ?thesis by (simp add: s)
qed

lemma readBit_empty:
  assumes "br_bitPos r < 8" and "remaining r = []"
  shows "readBit r = Inl (Error ''End of buffer'')"
proof -
  from assms(2) have "8 * length (br_data r) \<le> br_bytePos r * 8 + br_bitPos r"
    by (simp add: remaining_def)
  with assms(1) have "length (br_data r) \<le> br_bytePos r" by linarith
  then show ?thesis by (simp add: readBit_def)
qed

lemma readBit_Cons:
  assumes pos: "br_bitPos r < 8" and rem: "remaining r = b # bs"
  shows "\<exists>r'. readBit r = Inr (of_bool b, r') \<and> remaining r' = bs \<and> br_bitPos r' < 8"
proof -
  let ?p = "br_bytePos r * 8 + br_bitPos r"
  from rem have lt: "?p < 8 * length (br_data r)"
    by (cases "?p < 8 * length (br_data r)") (simp_all add: remaining_def)
  with pos have k: "br_bytePos r < length (br_data r)" by linarith
  have hd: "b = stream (br_data r) ! ?p" and tl: "bs = drop (Suc ?p) (stream (br_data r))"
    using rem lt by (simp_all add: remaining_def Cons_nth_drop_Suc [symmetric])
  have "b = bit (br_data r ! br_bytePos r) (7 - br_bitPos r)"
    unfolding hd by (rule stream_nth [OF k pos])
  then have v: "js_and (js_sar (uint (br_data r ! br_bytePos r)) (7 - br_bitPos r)) 1 = of_bool b"
    by (simp add: js_bit_of_byte)
  show ?thesis
  proof (cases "br_bitPos r = 7")
    case True
    then show ?thesis using k v tl
      by (simp add: readBit_def Let_def remaining_def)
  next
    case False
    with pos have "br_bitPos r + 1 < 8" by simp
    then show ?thesis using k v tl False
      by (simp add: readBit_def Let_def remaining_def)
  qed
qed

definition bl_acc :: "int \<Rightarrow> bool list \<Rightarrow> int" where
  "bl_acc acc bs = foldl (\<lambda>a b. 2 * a + of_bool b) acc bs"

lemma bl_acc_simps [simp]:
  "bl_acc acc [] = acc" "bl_acc acc (b # bs) = bl_acc (2 * acc + of_bool b) bs"
  by (simp_all add: bl_acc_def)

lemma readBits_loop_bits:
  assumes "br_bitPos r < 8" and "remaining r = bs @ rest" and "length bs = n"
    and "0 \<le> acc" and "(acc + 1) * 2 ^ n \<le> 2 ^ 31"
  shows "\<exists>r'. readBits_loop n acc r = Inr (bl_acc acc bs, r') \<and> remaining r' = rest
              \<and> br_bitPos r' < 8"
  using assms
proof (induction bs arbitrary: n acc r)
  case Nil
  then show ?case by simp
next
  case (Cons b bs)
  then obtain m where n: "n = Suc m" and m: "length bs = m" by (cases n) auto
  from Cons.prems(2) have "remaining r = b # (bs @ rest)" by simp
  from readBit_Cons [OF Cons.prems(1) this] obtain r1 where
    r1: "readBit r = Inr (of_bool b, r1)" "remaining r1 = bs @ rest" "br_bitPos r1 < 8"
    by blast
  have "(acc + 1) * 2 \<le> (acc + 1) * 2 ^ n"
    using Cons.prems(4) n by (intro mult_left_mono) simp_all
  with Cons.prems(5) have small: "acc < 2 ^ 30" by simp
  have step: "js_or (js_shl acc 1) (of_bool b) = 2 * acc + of_bool b"
    by (rule js_shift_in [OF Cons.prems(4) small]) simp
  have nonneg: "0 \<le> 2 * acc + of_bool b" using Cons.prems(4) by simp
  have "(2 * acc + of_bool b + 1) * 2 ^ m \<le> (2 * acc + 2) * 2 ^ m"
    by (intro mult_right_mono) simp_all
  also have "\<dots> = (acc + 1) * 2 ^ n" by (simp add: n algebra_simps)
  finally have bound: "(2 * acc + of_bool b + 1) * 2 ^ m \<le> 2 ^ 31"
    using Cons.prems(5) by simp
  from Cons.IH [OF r1(3) r1(2) m nonneg bound] r1(1) step n show ?case
    by simp
qed

lemma readBits_bits:
  assumes "br_bitPos r < 8" and "remaining r = bs @ rest" and "length bs = n" and "n \<le> 31"
  shows "\<exists>r'. readBits n r = Inr (bl_acc 0 bs, r') \<and> remaining r' = rest \<and> br_bitPos r' < 8"
proof -
  have "(2 :: int) ^ n \<le> 2 ^ 31" using assms(4) by (intro power_increasing) simp_all
  then have "((0 :: int) + 1) * 2 ^ n \<le> 2 ^ 31" by simp
  from readBits_loop_bits [OF assms(1,2,3) _ this] assms(4) show ?thesis
    by (simp add: readBits_def)
qed

lemma count_zeros_ok:
  assumes "br_bitPos r < 8" and "remaining r = replicate q False @ True # rest"
    and "count + q \<le> 32"
  shows "\<exists>r'. count_zeros msg count r = Inr (count + q, r') \<and> remaining r' = rest
              \<and> br_bitPos r' < 8"
  using assms
proof (induction q arbitrary: count r)
  case 0
  then have "remaining r = True # rest" by simp
  from readBit_Cons [OF "0.prems"(1) this] show ?case
    by (subst count_zeros.simps) auto
next
  case (Suc q)
  then have "remaining r = False # (replicate q False @ True # rest)" by simp
  from readBit_Cons [OF Suc.prems(1) this] obtain r1 where
    r1: "readBit r = Inr (0, r1)" "remaining r1 = replicate q False @ True # rest"
      "br_bitPos r1 < 8"
    by auto
  have "(count + 1) + q \<le> 32" using Suc.prems(3) by simp
  from Suc.IH [OF r1(3) r1(2) this] r1(1) Suc.prems(3) show ?case
    by (subst count_zeros.simps) auto
qed

lemma count_zeros_overflow:
  assumes "br_bitPos r < 8" and "remaining r = replicate q False @ rest"
    and "count \<le> 32" and "count + q > 32"
  shows "count_zeros msg count r = Inl (Error msg)"
  using assms
proof (induction q arbitrary: count r)
  case 0
  then show ?case by simp
next
  case (Suc q)
  then have "remaining r = False # (replicate q False @ rest)" by simp
  from readBit_Cons [OF Suc.prems(1) this] obtain r1 where
    r1: "readBit r = Inr (0, r1)" "remaining r1 = replicate q False @ rest" "br_bitPos r1 < 8"
    by auto
  show ?case
  proof (cases "count + 1 > 32")
    case True
    with r1(1) show ?thesis by (subst count_zeros.simps) simp
  next
    case False
    then have "count + 1 \<le> 32" "(count + 1) + q > 32" using Suc.prems(4) by simp_all
    from Suc.IH [OF r1(3) r1(2) this] r1(1) False show ?thesis
      by (subst count_zeros.simps) simp
  qed
qed

definition top_bits :: "nat \<Rightarrow> int \<Rightarrow> bool list" where
  "top_bits n x = map (\<lambda>i. bit x (n - 1 - i)) [0..<n]"

definition pending :: "BitWriter \<Rightarrow> bool list" where
  "pending w = top_bits (bw_bitPos w) (bw_currentByte w)"

definition written :: "BitWriter \<Rightarrow> bool list" where
  "written w = stream (concat (bw_buffers w)) @ pending w"

definition wok :: "BitWriter \<Rightarrow> bool" where
  "wok w = (bw_bitPos w < 8 \<and> 0 \<le> bw_currentByte w \<and> bw_currentByte w < 2 ^ bw_bitPos w)"

lemma length_top_bits [simp]: "length (top_bits n x) = n"
  by (simp add: top_bits_def)

lemma top_bits_0 [simp]: "top_bits 0 x = []"
  by (simp add: top_bits_def)

lemma top_bits_Suc_shift:
  assumes "b \<in> {0, 1}"
  shows "top_bits (Suc n) (2 * c + b) = top_bits n c @ [b = 1]"
proof -
  have hi: "bit (2 * c + b) (Suc j) = bit c j" for j
    using assms by (auto simp: bit_Suc)
  have lo: "bit (2 * c + b) 0 = (b = 1)"
    using assms by (auto simp: bit_0)
  have "map (\<lambda>i. bit (2 * c + b) (n - i)) [0..<n] = map (\<lambda>i. bit c (n - 1 - i)) [0..<n]"
  proof (rule map_cong [OF refl])
    fix i assume "i \<in> set [0..<n]"
    then have "n - i = Suc (n - 1 - i)" by simp
    then show "bit (2 * c + b) (n - i) = bit c (n - 1 - i)" by (simp only: hi)
  qed
  then show ?thesis by (simp add: top_bits_def lo)
qed

lemma top_bits_Suc_high: "top_bits (Suc n) x = bit x n # top_bits n x"
proof -
  have "[0..<Suc n] = 0 # map Suc [0..<n]"
    by (simp add: upt_conv_Cons map_Suc_upt del: upt_Suc)
  then show ?thesis by (simp add: top_bits_def comp_def del: upt_Suc)
qed

lemma bits_of_byte_of_int: "bits_of_byte (of_int x) = top_bits 8 x"
  by (auto simp add: bits_of_byte_def top_bits_def bit_of_int_iff)

lemma wok_new [simp]: "wok new_BitWriter" "written new_BitWriter = []"
  by (simp_all add: wok_def written_def pending_def new_BitWriter_def BitWriter.defs stream_def)

lemma writeBit_written:
  assumes ok: "wok w" and b: "b \<in> {0, 1}"
  shows "wok (writeBit b w)" and "written (writeBit b w) = written w @ [b = 1]"
    and "bw_bitPos (writeBit b w) = (bw_bitPos w + 1) mod 8"
proof -
  let ?c = "bw_currentByte w" and ?n = "bw_bitPos w"
  from ok have n: "?n < 8" and c0: "0 \<le> ?c" and cn: "?c < 2 ^ ?n" by (simp_all add: wok_def)
  have "(2 :: int) ^ ?n \<le> 2 ^ 30" using n by (intro power_increasing) simp_all
  with cn have c30: "?c < 2 ^ 30" by simp
  have b1: "js_and b 1 = b" using b by (auto simp: js_and_def toInt32_def)
  have "js_or (js_shl ?c 1) (js_and b 1) = 2 * ?c + b"
    unfolding b1 by (rule js_shift_in [OF c0 c30 b])
  then have cur: "js_or (js_shl ?c (Suc 0)) (js_and b (Suc 0)) = 2 * ?c + b"
    "js_or (js_shl ?c (Suc 0)) (js_and b 1) = 2 * ?c + b"
    "js_or (js_shl ?c 1) (js_and b 1) = 2 * ?c + b"
    by simp_all
  have bound: "2 * ?c + b < 2 ^ Suc ?n" using cn b by auto
  have nonneg: "0 \<le> 2 * ?c + b" using c0 b by auto
  show "wok (writeBit b w)"
    using n bound nonneg by (auto simp: writeBit_def Let_def cur wok_def)
  show "bw_bitPos (writeBit b w) = (bw_bitPos w + 1) mod 8"
    using n by (auto simp: writeBit_def Let_def)
  show "written (writeBit b w) = written w @ [b = 1]"
  proof (cases "?n + 1 = 8")
    case True
    then have "top_bits 8 (2 * ?c + b) = pending w @ [b = 1]"
      using top_bits_Suc_shift [OF b, of ?n ?c] by (simp add: pending_def)
    then have byte: "bits_of_byte (of_int (2 * ?c + b)) = pending w @ [b = 1]"
      by (simp only: bits_of_byte_of_int)
    have "written (writeBit b w)
            = stream (concat (bw_buffers w)) @ bits_of_byte (of_int (2 * ?c + b))"
      using True by (simp add: writeBit_def Let_def cur written_def stream_append stream_def
            pending_def del: of_int_add of_int_mult)
    then show ?thesis
      by (simp only: byte written_def append_assoc)
  next
    case False
    then show ?thesis
      using top_bits_Suc_shift [OF b, of ?n ?c]
      by (simp add: writeBit_def Let_def cur written_def pending_def)
  qed
qed

lemma write_zeros_written:
  assumes "wok w"
  shows "wok (write_zeros n w) \<and> written (write_zeros n w) = written w @ replicate n False
         \<and> bw_bitPos (write_zeros n w) = (bw_bitPos w + n) mod 8"
  using assms
proof (induction n arbitrary: w)
  case 0
  then show ?case by (simp add: wok_def)
next
  case (Suc n)
  have z: "(0 :: int) \<in> {0, 1}" by simp
  note wb = writeBit_written [OF Suc.prems z]
  from Suc.IH [OF wb(1)] wb(2,3) show ?case
    by (simp add: replicate_app_Cons_same mod_simps)
qed

lemma writeUnary_written:
  assumes "wok w" and "0 \<le> q"
  shows "wok (writeUnary q w) \<and> written (writeUnary q w) = written w @ replicate (nat q) False @ [True]"
proof -
  have o: "(1 :: int) \<in> {0, 1}" by simp
  from write_zeros_written [OF assms(1), of "nat q"]
  have z: "wok (write_zeros (nat q) w)"
    "written (write_zeros (nat q) w) = written w @ replicate (nat q) False" by simp_all
  from writeBit_written(1,2) [OF z(1) o] z(2) show ?thesis
    by (simp add: writeUnary_def)
qed

lemma js_bit_of_value:
  assumes "0 \<le> v" and "v < 2 ^ 31" and "i < 32"
  shows "js_and (js_sar v i) 1 = of_bool (bit v i)"
proof -
  have s: "js_sar v i = drop_bit i v"
    using assms by (simp add: js_sar_nonneg drop_bit_eq_div)
  have "0 \<le> drop_bit i v" using assms(1) by simp
  moreover have "drop_bit i v < 2 ^ 31"
    using order_le_less_trans [OF int_div_pow2_le [OF assms(1), of i] assms(2)]
    by (simp add: drop_bit_eq_div)
  ultimately have "js_and (drop_bit i v) 1 = drop_bit i v mod 2"
    by (rule js_and_1)
  then show ?thesis
    by (simp add: s bit_iff_odd_drop_bit mod_2_eq_odd)
qed

lemma writeBits_loop_written:
  assumes "wok w" and "0 \<le> v" and "v < 2 ^ 31" and "n \<le> 32"
  shows "wok (writeBits_loop v n w) \<and> written (writeBits_loop v n w) = written w @ top_bits n v"
  using assms
proof (induction n arbitrary: w)
  case 0
  then show ?case by simp
next
  case (Suc n)
  have v: "js_and (js_sar v n) 1 = of_bool (bit v n)"
    using Suc.prems by (intro js_bit_of_value) simp_all
  have b: "(of_bool (bit v n) :: int) \<in> {0, 1}" by simp
  note wb = writeBit_written(1,2) [OF Suc.prems(1) b]
  have "n \<le> 32" using Suc.prems(4) by simp
  from Suc.IH [OF wb(1) Suc.prems(2,3) this] wb(2) v show ?case
    by (simp add: top_bits_Suc_high)
qed

lemma getBuffer_stream:
  assumes "wok w"
  shows "\<exists>pad. stream (fst (bw_getBuffer w)) = written w @ replicate pad False"
proof (cases "bw_bitPos w > 0")
  case True
  from assms have n: "bw_bitPos w < 8" by (simp add: wok_def)
  let ?k = "8 - bw_bitPos w"
  from write_zeros_written [OF assms, of ?k] True n
  have z: "written (write_zeros ?k w) = written w @ replicate ?k False"
    "bw_bitPos (write_zeros ?k w) = 0" by simp_all
  from z(2) have "pending (write_zeros ?k w) = []" by (simp add: pending_def)
  then have "stream (concat (bw_buffers (write_zeros ?k w))) = written w @ replicate ?k False"
    using z(1) by (simp add: written_def)
  then show ?thesis using True n
    by (auto simp: bw_getBuffer_def Let_def)
next
  case False
  then have "pending w = []" by (simp add: pending_def)
  then have "stream (concat (bw_buffers w)) = written w @ replicate 0 False"
    by (simp add: written_def)
  then show ?thesis using False
    by (auto simp: bw_getBuffer_def Let_def)
qed

lemma remaining_new [simp]:
  "remaining (new_BitReader data) = stream data" "br_bitPos (new_BitReader data) = 0"
  by (simp_all add: remaining_def new_BitReader_def BitReader.defs)

lemma bl_acc_top_bits: "bl_acc acc (top_bits n x) = acc * 2 ^ n + take_bit n x"
proof (induction n arbitrary: acc)
  case 0
  then show ?case by simp
next
  case (Suc n)
  show ?case
    by (simp add: top_bits_Suc_high Suc.IH take_bit_Suc_from_most algebra_simps)
qed

lemma bl_acc_top_bits_small:
  "0 \<le> x \<Longrightarrow> x < 2 ^ n \<Longrightarrow> bl_acc 0 (top_bits n x) = x"
  by (simp add: bl_acc_top_bits take_bit_int_eq_self)

lemma push_drop_or_take: "push_bit k (drop_bit k u) OR take_bit k u = (u :: int)"
proof -
  have "push_bit k (drop_bit k u) AND take_bit k u = 0"
    by (rule bit_eqI) (auto simp: bit_simps)
  from disjunctive_add_eq_or [OF this] show ?thesis
    by (simp add: bits_ident)
qed

lemma zigzag_decode:
  assumes "- (2 ^ 30) \<le> v" and "v < 2 ^ 30"
  shows "js_xor (js_sar (if 0 \<le> v then v * 2 else - v * 2 - 1) 1)
           (- js_and (if 0 \<le> v then v * 2 else - v * 2 - 1) 1) = v"
proof (cases "0 \<le> v")
  case True
  then have u: "0 \<le> v * 2" "v * 2 < 2 ^ 31" using assms by simp_all
  have "js_sar (v * 2) 1 = v * 2 div 2 ^ 1" using u by (intro js_sar_nonneg) simp_all
  then have "js_sar (v * 2) 1 = v" by simp
  moreover have "js_and (v * 2) 1 = v * 2 mod 2" using u by (intro js_and_1) simp_all
  then have "js_and (v * 2) 1 = 0" by simp
  moreover have "js_xor v 0 = v"
    using True assms by (simp add: js_xor_def toInt32_id)
  ultimately show ?thesis using True by simp
next
  case False
  let ?u = "- v * 2 - 1"
  from False assms have u: "0 \<le> ?u" "?u < 2 ^ 31" by simp_all
  have e: "?u = 2 * (- v - 1) + 1" by simp
  have "js_sar ?u 1 = ?u div 2 ^ 1" using u by (intro js_sar_nonneg) simp_all
  moreover have "?u div 2 ^ 1 = - v - 1" by simp
  ultimately have "js_sar ?u 1 = - v - 1" by (simp only:)
  moreover have "js_and ?u 1 = ?u mod 2" using u by (intro js_and_1) simp_all
  moreover have "?u mod 2 = 1" by presburger
  moreover have "js_xor (- v - 1) (- 1) = v"
  proof -
    have "toInt32 (- v - 1) = - v - 1" using False assms by (intro toInt32_id) simp_all
    moreover have "toInt32 (- 1) = - 1" by (intro toInt32_id) simp_all
    moreover have "(- v - 1) XOR (- 1) = NOT (- v - 1)" by simp
    moreover have "NOT (- v - 1) = v" by (simp add: not_int_def)
    ultimately show ?thesis by (simp add: js_xor_def)
  qed
  ultimately show ?thesis using False by simp
qed

text \<open>
  C3, as the code has it. For every signed \<open>v\<close> in \<open>[-2^20, 2^20]\<close> and every Rice parameter
  \<open>k\<close> in \<open>[0, 20]\<close>, writing \<open>v\<close> with \<open>writeRice\<close> and decoding the bytes of \<open>getBuffer()\<close>
  with \<open>readRice\<close> gives \<open>v\<close> again when the unary quotient, the zig-zag code of \<open>v\<close>
  shifted right by \<open>k\<close>, is at most 32. For a larger quotient \<open>readUnary\<close> reaches its
  33rd zero and \<open>readRice\<close> throws "Invalid unary code".
\<close>

theorem rice_roundtrip_within_unary_cap:
  assumes lo: "- (2 ^ 20) \<le> v" and hi: "v \<le> 2 ^ 20" and k: "k \<le> 20"
  shows "rice_roundtrip v k =
           (if (if 0 \<le> v then v * 2 else - v * 2 - 1) div 2 ^ k \<le> 32 then Inr v
            else Inl (Error ''Invalid unary code''))"
proof -
  define u where "u = (if 0 \<le> v then v * 2 else - v * 2 - 1)"
  define q where "q = u div 2 ^ k"
  define rm where "rm = u mod 2 ^ k"
  have u0: "0 \<le> u" and u21: "u \<le> 2 ^ 21" using lo hi by (auto simp: u_def)
  then have u31: "u < 2 ^ 31" by simp
  have k32: "k < 32" "k \<le> 32" "k \<le> 31" using k by simp_all
  have q0: "0 \<le> q" using u0 by (simp add: q_def pos_imp_zdiv_nonneg_iff)
  have rm0: "0 \<le> rm" and rmk: "rm < 2 ^ k" by (simp_all add: rm_def)
  have "(2 :: int) ^ k \<le> 2 ^ 20" using k by (intro power_increasing) simp_all
  then have pk: "(2 :: int) ^ k < 2 ^ 31" "(1 :: int) * 2 ^ k < 2 ^ 31" by simp_all
  with rmk have rm31: "rm < 2 ^ 31" by linarith
  have quo: "js_sar u k = q"
    using u0 u31 k32 by (simp add: js_sar_nonneg q_def)
  have "js_shl 1 k = 2 ^ k"
    using js_shl_nonneg [of 1 k] pk k32 by simp
  then have "js_and u (js_shl 1 k - 1) = u AND mask k"
    using u0 u31 pk by (simp add: js_and_nonneg mask_eq_exp_minus_1)
  then have remn: "js_and u (js_shl 1 k - 1) = rm"
    by (simp add: rm_def take_bit_eq_mod flip: take_bit_eq_mask)
  have w1: "wok (writeUnary q new_BitWriter)"
    "written (writeUnary q new_BitWriter) = replicate (nat q) False @ [True]"
    using writeUnary_written [OF wok_new(1) q0] by simp_all
  define w where "w = writeBits_loop rm k (writeUnary q new_BitWriter)"
  have w: "wok w" "written w = replicate (nat q) False @ True # top_bits k rm"
    using writeBits_loop_written [OF w1(1) rm0 rm31 k32(2)] w1(2) by (simp_all add: w_def)
  have wr: "writeRice v k new_BitWriter = Inr w"
    using k32 by (simp add: writeRice_def Let_def u_def [symmetric] quo remn writeBits_def w_def)
  from getBuffer_stream [OF w(1)] obtain pad where
    st: "stream (fst (bw_getBuffer w)) = replicate (nat q) False @ True # (top_bits k rm @ replicate pad False)"
    using w(2) by auto
  define r where "r = new_BitReader (fst (bw_getBuffer w))"
  have r: "br_bitPos r < 8"
    "remaining r = replicate (nat q) False @ True # (top_bits k rm @ replicate pad False)"
    by (simp_all add: r_def st)
  have rt: "rice_roundtrip v k = map_sum id fst (readRice k r)"
    by (simp add: rice_roundtrip_def wr r_def)
  show ?thesis
  proof (cases "q \<le> 32")
    case True
    then have "0 + nat q \<le> 32" by simp
    from count_zeros_ok [OF r(1) r(2) this, of "''Invalid unary code''"] obtain r1 where
      r1: "count_zeros ''Invalid unary code'' 0 r = Inr (nat q, r1)"
      "remaining r1 = top_bits k rm @ replicate pad False" "br_bitPos r1 < 8"
      by auto
    from readBits_bits [OF r1(3) r1(2) _ k32(3)] obtain r2 where
      r2: "readBits k r1 = Inr (bl_acc 0 (top_bits k rm), r2)"
      by auto
    have val: "bl_acc 0 (top_bits k rm) = rm"
      by (rule bl_acc_top_bits_small [OF rm0 rmk])
    have "q * 2 ^ k \<le> u"
      using u0 by (simp add: q_def) (metis div_mult_mod_eq le_add_same_cancel1 pos_mod_sign zero_less_numeral zero_less_power)
    then have qk: "q * 2 ^ k < 2 ^ 31" using u31 by linarith
    have "js_shl q k = push_bit k (drop_bit k u)"
      using js_shl_nonneg [OF q0 qk k32(1)] by (simp add: push_bit_eq_mult q_def drop_bit_eq_div)
    moreover have "0 \<le> push_bit k (drop_bit k u)" using u0 by simp
    moreover have "push_bit k (drop_bit k u) < 2 ^ 31"
      using qk by (simp add: push_bit_eq_mult q_def drop_bit_eq_div)
    ultimately have "js_or (js_shl q k) rm = push_bit k (drop_bit k u) OR take_bit k u"
      using rm0 rm31 by (simp add: js_or_nonneg rm_def take_bit_eq_mod)
    then have comb: "js_or (js_shl q k) rm = u"
      by (simp add: push_drop_or_take)
    have dec: "js_xor (js_sar u 1) (- js_and u 1) = v"
      unfolding u_def using lo hi by (intro zigzag_decode) simp_all
    have "readRice k r = Inr (v, r2)"
      using r1(1) r2 q0 dec by (simp add: readRice_def readUnary_def val comb Let_def)
    then show ?thesis using True rt by (simp add: q_def u_def)
  next
    case False
    then have "0 + nat q > 32" by simp
    from count_zeros_overflow [OF r(1) r(2) _ this, of "''Invalid unary code''"]
    have "count_zeros ''Invalid unary code'' 0 r = Inl (Error ''Invalid unary code'')"
      by simp
    then have "readRice k r = Inl (Error ''Invalid unary code'')"
      by (simp add: readRice_def readUnary_def)
    then show ?thesis using False rt by (simp add: q_def u_def)
  qed
qed

theorem rice_roundtrip_within_unary_cap_witness:
  "- (2 ^ 20) \<le> (- 1000 :: int) \<and> (- 1000 :: int) \<le> 2 ^ 20 \<and> (6 :: nat) \<le> 20
   \<and> rice_roundtrip (- 1000) 6 = Inr (- 1000)
   \<and> rice_roundtrip 1000 4 = Inl (Error ''Invalid unary code'')"
proof -
  have a: "- (2 ^ 20) \<le> (- 1000 :: int)" "(- 1000 :: int) \<le> 2 ^ 20" "(6 :: nat) \<le> 20"
    and b: "- (2 ^ 20) \<le> (1000 :: int)" "(1000 :: int) \<le> 2 ^ 20" "(4 :: nat) \<le> 20"
    by simp_all
  from rice_roundtrip_within_unary_cap [OF a] rice_roundtrip_within_unary_cap [OF b] a
  show ?thesis by simp
qed

text \<open>
  The claim as written fails for \<open>v = 17\<close>, \<open>k = 0\<close>: the quotient is 34, the writer emits 34
  zeros and the reader throws.
\<close>

theorem rice_roundtrip_counterexample:
  "- (2 ^ 20) \<le> (17 :: int) \<and> (17 :: int) \<le> 2 ^ 20 \<and> (0 :: nat) \<le> 20
   \<and> rice_roundtrip 17 0 = Inl (Error ''Invalid unary code'')"
  by code_simp

lemma floor_log2_bounds:
  "1 \<le> n \<Longrightarrow> 2 ^ floor_log2 n \<le> n \<and> n < 2 ^ Suc (floor_log2 n)"
proof (induction n rule: floor_log2.induct)
  case (1 n)
  show ?case
  proof (cases "n < 2")
    case True
    with "1.prems" have "n = 1" by simp
    then show ?thesis by (simp add: floor_log2.simps [of 1])
  next
    case False
    then have "1 \<le> n div 2" by simp
    from "1.IH" [OF False this]
    have ih: "2 ^ floor_log2 (n div 2) \<le> n div 2" "n div 2 < 2 ^ Suc (floor_log2 (n div 2))"
      by simp_all
    have e: "floor_log2 n = Suc (floor_log2 (n div 2))"
      using False by (simp add: floor_log2.simps [of n])
    from ih show ?thesis unfolding e by (simp, linarith)
  qed
qed

lemma golomb_roundtrip_general:
  assumes "0 \<le> u" and "u \<le> 2 ^ 31 - 2"
  shows "golomb_roundtrip u = Inr u"
proof (cases "u = 0")
  case True
  have o: "(1 :: int) \<in> {0, 1}" by simp
  note wb = writeBit_written(1,2) [OF wok_new(1) o]
  from getBuffer_stream [OF wb(1)] obtain pad where
    st: "stream (fst (bw_getBuffer (writeBit 1 new_BitWriter))) = replicate 0 False @ True # replicate pad False"
    using wb(2) by auto
  define r where "r = new_BitReader (fst (bw_getBuffer (writeBit 1 new_BitWriter)))"
  have r: "br_bitPos r < 8" "remaining r = replicate 0 False @ True # replicate pad False"
    by (simp_all add: r_def st)
  have "0 + 0 \<le> (32 :: nat)" by simp
  from count_zeros_ok [OF r(1) r(2) this, of "''Invalid Exp-Golomb code''"] obtain r1 where
    "count_zeros ''Invalid Exp-Golomb code'' 0 r = Inr (0, r1)" by auto
  then have "readUExpGolomb r = Inr (0, r1)" by (simp add: readUExpGolomb_def)
  then show ?thesis using True
    by (simp add: golomb_roundtrip_def writeUExpGolomb_def r_def)
next
  case False
  define code where "code = u + 1"
  define L where "L = floor_log2 code"
  from False assms have c: "2 \<le> code" "code \<le> 2 ^ 31 - 1" by (simp_all add: code_def)
  then have c0: "0 \<le> code" and c31: "code < 2 ^ 31" by simp_all
  from floor_log2_bounds [of code] c have b: "2 ^ L \<le> code" "code < 2 ^ Suc L"
    by (simp_all add: L_def)
  have "(2 :: int) ^ L < 2 ^ 31" using b(1) c31 by linarith
  then have L31: "L < 31" by (rule power_less_imp_less_exp [rotated]) simp
  have "(2 :: int) ^ 1 < 2 ^ Suc L" using b(2) c(1) by simp
  then have "1 < Suc L" by (rule power_less_imp_less_exp [rotated]) simp
  then have L1: "1 \<le> L" by simp
  have d1: "code div 2 ^ L = 1" and m1: "code mod 2 ^ L = code - 2 ^ L"
    using b by (auto intro: int_div_pos_eq [of code "2 ^ L" 1 "code - 2 ^ L"]
                     int_mod_pos_eq [of code "2 ^ L" 1 "code - 2 ^ L"])
  have top: "bit code L"
    by (simp add: bit_iff_odd d1)
  have low: "take_bit L code = code - 2 ^ L"
    by (simp add: take_bit_eq_mod m1)
  define w where "w = writeBits_loop code (Suc L) (write_zeros L new_BitWriter)"
  have z: "wok (write_zeros L new_BitWriter)"
    "written (write_zeros L new_BitWriter) = replicate L False"
    using write_zeros_written [OF wok_new(1), of L] by simp_all
  have "Suc L \<le> 32" using L31 by simp
  from writeBits_loop_written [OF z(1) c0 c31 this] z(2) top
  have w: "wok w" "written w = replicate L False @ True # top_bits L code"
    by (simp_all add: w_def top_bits_Suc_high)
  have wr: "writeUExpGolomb u new_BitWriter = Inr w"
    using False assms(1) L31
    by (simp add: writeUExpGolomb_def Let_def code_def [symmetric] L_def [symmetric] writeBits_def w_def)
  from getBuffer_stream [OF w(1)] obtain pad where
    st: "stream (fst (bw_getBuffer w)) = replicate L False @ True # (top_bits L code @ replicate pad False)"
    using w(2) by auto
  define r where "r = new_BitReader (fst (bw_getBuffer w))"
  have r: "br_bitPos r < 8"
    "remaining r = replicate L False @ True # (top_bits L code @ replicate pad False)"
    by (simp_all add: r_def st)
  have "0 + L \<le> 32" using L31 by simp
  from count_zeros_ok [OF r(1) r(2) this, of "''Invalid Exp-Golomb code''"] obtain r1 where
    r1: "count_zeros ''Invalid Exp-Golomb code'' 0 r = Inr (L, r1)"
    "remaining r1 = top_bits L code @ replicate pad False" "br_bitPos r1 < 8"
    by auto
  have "L \<le> 31" using L31 by simp
  from readBits_bits [OF r1(3) r1(2) _ this] obtain r2 where
    r2: "readBits L r1 = Inr (bl_acc 0 (top_bits L code), r2)"
    by auto
  have val: "bl_acc 0 (top_bits L code) = code - 2 ^ L"
    by (simp add: bl_acc_top_bits low)
  have "(1 :: int) * 2 ^ L < 2 ^ 31" using b(1) c31 by simp
  then have sh: "js_shl 1 L = 2 ^ L"
    using js_shl_nonneg [of 1 L] L31 by simp
  have res: "2 ^ L - 1 + bl_acc 0 (top_bits L code) = u"
    unfolding val by (simp add: code_def)
  have "readUExpGolomb r = Inr (u, r2)"
    using r1(1) r2 L1 by (simp add: readUExpGolomb_def sh res)
  then show ?thesis
    by (simp add: golomb_roundtrip_def wr r_def)
qed

text \<open>
  C2. The largest value of the claimed range, \<open>2^31 - 1\<close>, is written as 31 zeros followed
  by the 32 bits of \<open>2^31\<close>. The reader counts the 31 zeros, reads a zero suffix of 31 bits
  and returns \<open>(1 << 31) - 1 + 0\<close>, where \<open>1 << 31\<close> is the negative 32-bit integer
  \<open>-2^31\<close>: the round trip gives -2147483649. On every smaller value of the range the
  round trip is the identity (\<open>golomb_roundtrip_general\<close>).
\<close>

theorem golomb_roundtrip_at_max:
  "golomb_roundtrip (2 ^ 31 - 1) = Inr (- 2147483649)"
  by code_simp

end
